theory Spec2Isabelle
  imports Complex_Main "HOL-Library.Word"
begin

section \<open>Data model\<close>

text \<open>
  The kinematic state (\<^verbatim>\<open>planning_models2/src/kinematic_state.cpp\<close>) works on the
  kinematic model whose header declares \<^verbatim>\<open>Joint\<close>, \<^verbatim>\<open>JointGroup\<close>,
  \<^verbatim>\<open>getGroup\<close>, \<^verbatim>\<open>getJoint\<close>, \<^verbatim>\<open>getStateBounds\<close> and
  \<^verbatim>\<open>getDimension\<close>; the state code reads the fields \<^verbatim>\<open>used_params\<close>,
  \<^verbatim>\<open>state_index\<close> and \<^verbatim>\<open>dimension\<close> of joints and groups.

  A C++ \<^verbatim>\<open>double\<close> is a value of the type \<open>double\<close> below: finite,
  infinite or NaN, with the comparisons and the arithmetic of IEEE 754. An
  \<^verbatim>\<open>unsigned int\<close> index is a natural number; the code's \<^verbatim>\<open>i << 1\<close> is
  \<open>2 * i\<close> for every index below \<open>2 ^ 31\<close>. The seed of \<^verbatim>\<open>rand_r\<close> is a
  32-bit word. An array is a list; reading or writing an array outside its length is
  undefined in the code, and the theorems are stated for buffers of the lengths the
  constructors allocate (\<open>state_wf\<close> below).
\<close>

subsection \<open>Double-precision values\<close>

text \<open>
  A double is a finite real, an infinity or NaN; the sign of a zero is not modelled (the
  code never divides by a variable). The comparisons are those of IEEE 754: each of
  \<^verbatim>\<open><\<close>, \<^verbatim>\<open>>\<close>, \<^verbatim>\<open><=\<close>, \<^verbatim>\<open>>=\<close> and \<^verbatim>\<open>==\<close> is false when an operand
  is NaN, and \<^verbatim>\<open>!=\<close> is true. An arithmetic operation on finite operands takes the
  exact real result through the rounding \<open>rnd\<close>, which gives the nearest double or
  an infinity on overflow; \<open>rnd\<close> is a parameter of every operation that computes,
  and \<open>ieee_rounding\<close> lists the properties of round-to-nearest that the theorems
  use. Every operation of an expression is rounded to a double on its own, as a
  compilation to SSE2 arithmetic does it: no intermediate result is kept in extended
  precision and no product and sum are fused.
\<close>

datatype double = Finite real | PInf | NInf | NaN

type_synonym rounding = "real \<Rightarrow> double"

fun dlt :: "double \<Rightarrow> double \<Rightarrow> bool" where
  "dlt (Finite x) (Finite y) = (x < y)"
| "dlt (Finite x) PInf = True"
| "dlt NInf (Finite y) = True"
| "dlt NInf PInf = True"
| "dlt a b = False"

fun deq :: "double \<Rightarrow> double \<Rightarrow> bool" where
  "deq (Finite x) (Finite y) = (x = y)"
| "deq PInf PInf = True"
| "deq NInf NInf = True"
| "deq a b = False"

definition dgt :: "double \<Rightarrow> double \<Rightarrow> bool" where
  "dgt a b = dlt b a"

definition dle :: "double \<Rightarrow> double \<Rightarrow> bool" where
  "dle a b = (dlt a b \<or> deq a b)"

definition dge :: "double \<Rightarrow> double \<Rightarrow> bool" where
  "dge a b = dle b a"

definition dne :: "double \<Rightarrow> double \<Rightarrow> bool" where
  "dne a b = (\<not> deq a b)"

fun dneg :: "double \<Rightarrow> double" where
  "dneg (Finite x) = Finite (- x)"
| "dneg PInf = NInf"
| "dneg NInf = PInf"
| "dneg NaN = NaN"

fun dabs :: "double \<Rightarrow> double" where
  \<comment> \<open>\<^verbatim>\<open>fabs\<close>.\<close>
  "dabs (Finite x) = Finite \<bar>x\<bar>"
| "dabs PInf = PInf"
| "dabs NInf = PInf"
| "dabs NaN = NaN"

fun dadd :: "rounding \<Rightarrow> double \<Rightarrow> double \<Rightarrow> double" where
  "dadd rnd NaN b = NaN"
| "dadd rnd a NaN = NaN"
| "dadd rnd (Finite x) (Finite y) = rnd (x + y)"
| "dadd rnd PInf NInf = NaN"
| "dadd rnd NInf PInf = NaN"
| "dadd rnd PInf b = PInf"
| "dadd rnd a PInf = PInf"
| "dadd rnd NInf b = NInf"
| "dadd rnd a NInf = NInf"

definition dsub :: "rounding \<Rightarrow> double \<Rightarrow> double \<Rightarrow> double" where
  "dsub rnd a b = dadd rnd a (dneg b)"

fun dmul :: "rounding \<Rightarrow> double \<Rightarrow> double \<Rightarrow> double" where
  "dmul rnd NaN b = NaN"
| "dmul rnd a NaN = NaN"
| "dmul rnd (Finite x) (Finite y) = rnd (x * y)"
| "dmul rnd (Finite x) b =
     (if x = 0 then NaN else if (0 < x) = (b = PInf) then PInf else NInf)"
| "dmul rnd a (Finite y) =
     (if y = 0 then NaN else if (0 < y) = (a = PInf) then PInf else NInf)"
| "dmul rnd a b = (if a = b then PInf else NInf)"

fun ddiv :: "rounding \<Rightarrow> double \<Rightarrow> double \<Rightarrow> double" where
  "ddiv rnd NaN b = NaN"
| "ddiv rnd a NaN = NaN"
| "ddiv rnd (Finite x) (Finite y) =
     (if y = 0 then (if x = 0 then NaN else if 0 < x then PInf else NInf)
      else rnd (x / y))"
| "ddiv rnd (Finite x) b = Finite 0"
| "ddiv rnd a (Finite y) = (if (0 \<le> y) = (a = PInf) then PInf else NInf)"
| "ddiv rnd a b = NaN"

definition ieee_rounding :: "rounding \<Rightarrow> bool" where
  \<comment> \<open>Properties of IEEE 754 binary64 round-to-nearest: it is monotone; its finite
      results are doubles, which it leaves as they are; it is symmetric; an integer of at
      most 53 bits divided by a power of two down to \<open>2 ^ 1022\<close> is a double; on a real
      of magnitude \<open>1 / 2 ^ 1022\<close> or more the relative error of a finite result is at
      most \<open>1 / 2 ^ 53\<close>; and a difference of two doubles of magnitude at most
      \<open>1 / 2 ^ 1022\<close> is a double.\<close>
  "ieee_rounding rnd =
     ((\<forall>x y. x \<le> y \<longrightarrow> dle (rnd x) (rnd y))
      \<and> (\<forall>x y. rnd x = Finite y \<longrightarrow> rnd y = Finite y)
      \<and> (\<forall>x. rnd (- x) = dneg (rnd x))
      \<and> (\<forall>n k. \<bar>n\<bar> \<le> 2 ^ 53 \<and> k \<le> 1022 \<longrightarrow>
             rnd (real_of_int n / 2 ^ k) = Finite (real_of_int n / 2 ^ k))
      \<and> (\<forall>x y. rnd x = Finite y \<and> 1 / 2 ^ 1022 \<le> \<bar>x\<bar> \<longrightarrow> \<bar>y - x\<bar> \<le> \<bar>x\<bar> / 2 ^ 53)
      \<and> (\<forall>a b. rnd a = Finite a \<and> rnd b = Finite b \<and> \<bar>b - a\<bar> \<le> 1 / 2 ^ 1022 \<longrightarrow>
             rnd (b - a) = Finite (b - a)))"

definition is_double :: "rounding \<Rightarrow> double \<Rightarrow> bool" where
  \<comment> \<open>The value is one a double can hold: a finite one is left as it is by the
      rounding.\<close>
  "is_double rnd d = (case d of Finite x \<Rightarrow> rnd x = Finite x | _ \<Rightarrow> True)"

definition DBL_MAX :: real where
  \<comment> \<open>The largest finite double (\<^verbatim>\<open><cfloat>\<close>).\<close>
  "DBL_MAX = (2 - 1 / 2 ^ 52) * 2 ^ 1023"

definition exact_rounding :: rounding where
  \<comment> \<open>The rounding used in the examples: exact up to \<open>DBL_MAX\<close> in magnitude and
      infinite beyond. It agrees with round-to-nearest on every real that is a double and
      on every real of magnitude \<open>2 ^ 1024\<close> or more, and the examples apply it to
      such reals only.\<close>
  "exact_rounding x =
     (if x > DBL_MAX then PInf else if x < - DBL_MAX then NInf else Finite x)"

subsection \<open>Model and state\<close>

datatype JointVariant = Fixed | Revolute bool | Prismatic | Planar | Floating

record Joint =
  name :: string
  variant :: JointVariant
  used_params :: nat
  state_index :: nat

record Link =
  link_name :: string

record JointGroup =
  group_name :: string
  jointNames :: "string list"
  group_dimension :: nat
  group_state_index :: "nat list"

record KinematicModel =
  groupMap :: "string \<rightharpoonup> JointGroup"
  linkMap :: "string \<rightharpoonup> Link"
  jointMap :: "string \<rightharpoonup> Joint"
  jointList :: "Joint list"
  stateBounds :: "double list"
  dimension :: nat

record KinematicState =
  owner :: KinematicModel
  randSeed :: "32 word"
  params :: "double list"
  updated :: "bool list"

datatype error = NullPointer | EndIterator

definition getDimension :: "KinematicModel \<Rightarrow> nat" where
  \<comment> \<open>Modelled from the spec: the accessor is declared in the header only ("the
      dimension of the entire model").\<close>
  "getDimension m = dimension m"

definition getStateBounds :: "KinematicModel \<Rightarrow> double list" where
  \<comment> \<open>Modelled from the spec: the accessor is declared in the header only; component
      \<open>i\<close> has its bounds (min, max) at the positions \<open>2 * i\<close> and \<open>2 * i + 1\<close>.\<close>
  "getStateBounds m = stateBounds m"

section \<open>Name lookups\<close>

definition getGroup :: "KinematicModel \<Rightarrow> string \<Rightarrow> JointGroup option" where
  \<comment> \<open>Modelled from the spec: the body of \<^verbatim>\<open>KinematicModel::getGroup\<close> is not in the
      sources (only its declaration); the spec has it return "not found" (null) for a
      name that is not registered, and the registered group otherwise.\<close>
  "getGroup m n = groupMap m n"

definition getJoint :: "KinematicModel \<Rightarrow> string \<Rightarrow> Joint option" where
  \<comment> \<open>Modelled from the spec: the body of \<^verbatim>\<open>KinematicModel::getJoint\<close> is not in the
      sources; "not found" (null) for an unregistered name.\<close>
  "getJoint m n = jointMap m n"

definition getLink :: "KinematicModel \<Rightarrow> string \<Rightarrow> Link option" where
  \<comment> \<open>Modelled from the spec: the body of \<^verbatim>\<open>KinematicModel::getLink\<close> is not in the
      sources; "not found" (null) for an unregistered name.\<close>
  "getLink m n = linkMap m n"

definition hasModelGroup :: "(string \<rightharpoonup> 'g) \<Rightarrow> string \<Rightarrow> bool" where
  \<comment> \<open>Modelled from the spec: \<^verbatim>\<open>hasModelGroup\<close> is declared in
      \<^verbatim>\<open>kinematic_model.h\<close> and defined elsewhere; it tells whether the group map
      has the name.\<close>
  "hasModelGroup joint_model_group_map n = (joint_model_group_map n \<noteq> None)"

definition getModelGroup :: "(string \<rightharpoonup> 'g) \<Rightarrow> string \<Rightarrow> error + 'g option" where
  \<comment> \<open>\<^verbatim>\<open>kinematic_model.h\<close>: NULL unless \<^verbatim>\<open>hasModelGroup\<close>; then
      \<^verbatim>\<open>find(name)->second\<close>, where dereferencing \<^verbatim>\<open>end()\<close> would be an error.\<close>
  "getModelGroup joint_model_group_map n =
     (if \<not> hasModelGroup joint_model_group_map n then Inr None
      else (case joint_model_group_map n of
              None \<Rightarrow> Inl EndIterator
            | Some g \<Rightarrow> Inr (Some g)))"

section \<open>Whole-state operations of the kinematic state\<close>

definition defaultParams_step ::
  "rounding \<Rightarrow> double list \<Rightarrow> nat \<Rightarrow> KinematicState \<Rightarrow> KinematicState" where
  "defaultParams_step rnd bounds i s =
     (let i2 = 2 * i;
          s' = (if dle (bounds ! i2) (Finite 0) \<and> dge (bounds ! (i2 + 1)) (Finite 0)
                then s\<lparr>params := (params s)[i := Finite 0]\<rparr>
                else s\<lparr>params := (params s)
                         [i := ddiv rnd (dadd rnd (bounds ! i2) (bounds ! (i2 + 1))) (Finite 2)]\<rparr>)
      in s'\<lparr>updated := (updated s')[i := True]\<rparr>)"

definition defaultParams :: "rounding \<Rightarrow> KinematicState \<Rightarrow> KinematicState" where
  "defaultParams rnd s =
     (let dim = getDimension (owner s);
          bounds = getStateBounds (owner s)
      in fold (defaultParams_step rnd bounds) [0..<dim] s)"

definition reset_step :: "nat \<Rightarrow> KinematicState \<Rightarrow> KinematicState" where
  "reset_step i s = s\<lparr>updated := (updated s)[i := False]\<rparr>"

definition reset :: "KinematicState \<Rightarrow> KinematicState" where
  "reset s = (let dim = getDimension (owner s) in fold reset_step [0..<dim] s)"

definition UINT_MAX :: nat where
  "UINT_MAX = 4294967295"

definition KinematicState_new ::
  "rounding \<Rightarrow> nat \<Rightarrow> (nat \<Rightarrow> double) \<Rightarrow> KinematicModel \<Rightarrow> KinematicState" where
  \<comment> \<open>The constructor. \<open>now\<close> is the wall clock in nanoseconds; \<open>heap\<close> is the
      content of the freshly allocated, uninitialised \<^verbatim>\<open>new double[dim]\<close>.\<close>
  "KinematicState_new rnd now heap model =
     reset (defaultParams rnd
       \<lparr>owner = model,
        randSeed = of_nat (now mod UINT_MAX),
        params = map heap [0..<getDimension model],
        updated = replicate (getDimension model) False\<rparr>)"

definition enforceBounds_step :: "double list \<Rightarrow> nat \<Rightarrow> KinematicState \<Rightarrow> KinematicState" where
  "enforceBounds_step bounds i s =
     (let i2 = 2 * i
      in if dgt (params s ! i) (bounds ! (i2 + 1))
         then s\<lparr>params := (params s)[i := bounds ! (i2 + 1)]\<rparr>
         else if dlt (params s ! i) (bounds ! i2)
              then s\<lparr>params := (params s)[i := bounds ! i2]\<rparr>
              else s)"

definition enforceBounds :: "KinematicState \<Rightarrow> KinematicState" where
  "enforceBounds s =
     (let bounds = getStateBounds (owner s);
          dim = getDimension (owner s)
      in fold (enforceBounds_step bounds) [0..<dim] s)"

fun checkBounds_loop :: "double list \<Rightarrow> double list \<Rightarrow> nat list \<Rightarrow> bool" where
  "checkBounds_loop bounds ps [] = True"
| "checkBounds_loop bounds ps (i # rest) =
     (let i2 = 2 * i
      in if dgt (ps ! i) (bounds ! (i2 + 1)) then False
         else if dlt (ps ! i) (bounds ! i2) then False
         else checkBounds_loop bounds ps rest)"

definition checkBounds :: "KinematicState \<Rightarrow> bool" where
  "checkBounds s =
     (let bounds = getStateBounds (owner s);
          dim = getDimension (owner s)
      in checkBounds_loop bounds (params s) [0..<dim])"

definition setParams_step ::
  "double list \<Rightarrow> nat \<Rightarrow> bool \<times> KinematicState \<Rightarrow> bool \<times> KinematicState" where
  "setParams_step p i rs =
     (let s = snd rs
      in if dne (params s ! i) (p ! i) \<or> \<not> updated s ! i
         then (True, s\<lparr>params := (params s)[i := p ! i],
                       updated := (updated s)[i := True]\<rparr>)
         else rs)"

definition setParams :: "double list \<Rightarrow> KinematicState \<Rightarrow> bool \<times> KinematicState" where
  \<comment> \<open>\<^verbatim>\<open>setParams(const double *params)\<close>: the result flag and the state after.\<close>
  "setParams p s =
     (let dim = getDimension (owner s)
      in fold (setParams_step p) [0..<dim] (False, s))"

definition DBL_MIN :: real where
  \<comment> \<open>The smallest positive normalised double, \<open>2\<close> to the power \<open>-1022\<close>
      (\<^verbatim>\<open><cfloat>\<close>).\<close>
  "DBL_MIN = 1 / 2 ^ 1022"

fun eq_loop :: "rounding \<Rightarrow> double list \<Rightarrow> double list \<Rightarrow> nat list \<Rightarrow> bool" where
  "eq_loop rnd ps qs [] = True"
| "eq_loop rnd ps qs (i # rest) =
     (if dgt (dabs (dsub rnd (ps ! i) (qs ! i))) (Finite DBL_MIN) then False
      else eq_loop rnd ps qs rest)"

definition KinematicState_eq :: "rounding \<Rightarrow> KinematicState \<Rightarrow> KinematicState \<Rightarrow> bool" where
  \<comment> \<open>\<^verbatim>\<open>operator==\<close>.\<close>
  "KinematicState_eq rnd s rhs =
     (let dim = getDimension (owner s)
      in if dim \<noteq> getDimension (owner rhs) then False
         else eq_loop rnd (params s) (params rhs) [0..<dim])"

section \<open>Group-scoped operations\<close>

text \<open>
  The overloads taking \<^verbatim>\<open>const KinematicModel::JointGroup *\<close> are modelled on a
  group value (a pointer that is not null); the overloads taking a name follow below.
\<close>

definition defaultParamsGroup_step ::
  "rounding \<Rightarrow> JointGroup \<Rightarrow> double list \<Rightarrow> nat \<Rightarrow> KinematicState \<Rightarrow> KinematicState" where
  "defaultParamsGroup_step rnd grp bounds i s =
     (let j = group_state_index grp ! i;
          j2 = 2 * j
      in if dle (bounds ! j2) (Finite 0) \<and> dge (bounds ! (j2 + 1)) (Finite 0)
         then s\<lparr>params := (params s)[j := Finite 0]\<rparr>
         else s\<lparr>params := (params s)
                  [j := ddiv rnd (dadd rnd (bounds ! j2) (bounds ! (j2 + 1))) (Finite 2)]\<rparr>)"

definition defaultParamsGroup ::
  "rounding \<Rightarrow> JointGroup \<Rightarrow> KinematicState \<Rightarrow> KinematicState" where
  "defaultParamsGroup rnd grp s =
     (let bounds = getStateBounds (owner s)
      in fold (defaultParamsGroup_step rnd grp bounds) [0..<group_dimension grp] s)"

definition enforceBoundsGroup_step ::
  "JointGroup \<Rightarrow> double list \<Rightarrow> nat \<Rightarrow> KinematicState \<Rightarrow> KinematicState" where
  "enforceBoundsGroup_step grp bounds i s =
     (let j = group_state_index grp ! i;
          j2 = 2 * j
      in if dgt (params s ! j) (bounds ! (j2 + 1))
         then s\<lparr>params := (params s)[j := bounds ! (j2 + 1)]\<rparr>
         else if dlt (params s ! j) (bounds ! j2)
              then s\<lparr>params := (params s)[j := bounds ! j2]\<rparr>
              else s)"

definition enforceBoundsGroup :: "JointGroup \<Rightarrow> KinematicState \<Rightarrow> KinematicState" where
  "enforceBoundsGroup grp s =
     (let bounds = getStateBounds (owner s)
      in fold (enforceBoundsGroup_step grp bounds) [0..<group_dimension grp] s)"

definition checkBoundsGroup :: "JointGroup \<Rightarrow> KinematicState \<Rightarrow> bool" where
  "checkBoundsGroup grp s =
     (let bounds = getStateBounds (owner s)
      in checkBounds_loop bounds (params s)
           (map (\<lambda>i. group_state_index grp ! i) [0..<group_dimension grp]))"

definition resetGroup :: "JointGroup \<Rightarrow> KinematicState \<Rightarrow> KinematicState" where
  "resetGroup grp s =
     fold (\<lambda>i. reset_step (group_state_index grp ! i)) [0..<group_dimension grp] s"

fun seen_loop :: "bool list \<Rightarrow> nat list \<Rightarrow> bool" where
  "seen_loop upd [] = True"
| "seen_loop upd (i # rest) = (if \<not> upd ! i then False else seen_loop upd rest)"

definition seenAll :: "KinematicState \<Rightarrow> bool" where
  "seenAll s = (let dim = getDimension (owner s) in seen_loop (updated s) [0..<dim])"

definition seenAllGroup :: "JointGroup \<Rightarrow> KinematicState \<Rightarrow> bool" where
  "seenAllGroup grp s =
     seen_loop (updated s)
       (map (\<lambda>i. group_state_index grp ! i) [0..<group_dimension grp])"

definition setParamsGroup_step ::
  "JointGroup \<Rightarrow> double list \<Rightarrow> nat \<Rightarrow> bool \<times> KinematicState \<Rightarrow> bool \<times> KinematicState" where
  "setParamsGroup_step grp p i rs =
     (let s = snd rs;
          j = group_state_index grp ! i
      in if dne (params s ! j) (p ! i) \<or> \<not> updated s ! j
         then (True, s\<lparr>params := (params s)[j := p ! i],
                       updated := (updated s)[j := True]\<rparr>)
         else rs)"

definition setParamsGroup ::
  "double list \<Rightarrow> JointGroup \<Rightarrow> KinematicState \<Rightarrow> bool \<times> KinematicState" where
  "setParamsGroup p grp s =
     fold (setParamsGroup_step grp p) [0..<group_dimension grp] (False, s)"

definition setAllInGroup :: "double \<Rightarrow> JointGroup \<Rightarrow> KinematicState \<Rightarrow> KinematicState" where
  "setAllInGroup v grp s =
     fold (\<lambda>i s. let j = group_state_index grp ! i
                 in s\<lparr>params := (params s)[j := v], updated := (updated s)[j := True]\<rparr>)
          [0..<group_dimension grp] s"

definition copyParamsGroup :: "JointGroup \<Rightarrow> KinematicState \<Rightarrow> double list" where
  "copyParamsGroup grp s =
     map (\<lambda>i. params s ! (group_state_index grp ! i)) [0..<group_dimension grp]"

section \<open>Random sampling\<close>

text \<open>
  \<^verbatim>\<open>rand_r\<close> belongs to the C library: it is a parameter of the model, a function
  from the seed to the number drawn and the seed after. \<^verbatim>\<open>RAND_MAX\<close> has its
  value on the platforms the package builds on; the conversion of the number drawn to
  \<^verbatim>\<open>double\<close> and the constant \<^verbatim>\<open>RAND_MAX + 1.0\<close>, which is \<open>2 ^ 31\<close>, are
  exact.
\<close>

type_synonym rand_fun = "32 word \<Rightarrow> int \<times> 32 word"

definition RAND_MAX :: int where
  "RAND_MAX = 2147483647"

definition unit_sample :: "rounding \<Rightarrow> int \<Rightarrow> double" where
  \<comment> \<open>\<^verbatim>\<open>(double)rand_r(&randSeed_) / (RAND_MAX + 1.0)\<close> for the number \<open>r\<close> drawn.\<close>
  "unit_sample rnd r = ddiv rnd (Finite (real_of_int r)) (Finite (real_of_int RAND_MAX + 1))"

definition randomParams_step ::
  "rounding \<Rightarrow> rand_fun \<Rightarrow> double list \<Rightarrow> nat \<Rightarrow> KinematicState \<Rightarrow> KinematicState" where
  "randomParams_step rnd rand_r bounds i s =
     (let i2 = 2 * i;
          rs = rand_r (randSeed s);
          v = dadd rnd (dmul rnd (dsub rnd (bounds ! (i2 + 1)) (bounds ! i2))
                                 (unit_sample rnd (fst rs)))
                       (bounds ! i2)
      in s\<lparr>randSeed := snd rs, params := (params s)[i := v],
           updated := (updated s)[i := True]\<rparr>)"

definition randomParams :: "rounding \<Rightarrow> rand_fun \<Rightarrow> KinematicState \<Rightarrow> KinematicState" where
  "randomParams rnd rand_r s =
     (let bounds = getStateBounds (owner s);
          dim = getDimension (owner s)
      in fold (randomParams_step rnd rand_r bounds) [0..<dim] s)"

definition randomParamsGroup_step ::
  "rounding \<Rightarrow> rand_fun \<Rightarrow> JointGroup \<Rightarrow> double list \<Rightarrow> nat \<Rightarrow> KinematicState
   \<Rightarrow> KinematicState" where
  "randomParamsGroup_step rnd rand_r grp bounds i s =
     (let j = group_state_index grp ! i;
          j2 = 2 * j;
          rs = rand_r (randSeed s);
          v = dadd rnd (dmul rnd (dsub rnd (bounds ! (j2 + 1)) (bounds ! j2))
                                 (unit_sample rnd (fst rs)))
                       (bounds ! j2)
      in s\<lparr>randSeed := snd rs, params := (params s)[j := v],
           updated := (updated s)[j := True]\<rparr>)"

definition randomParamsGroup ::
  "rounding \<Rightarrow> rand_fun \<Rightarrow> JointGroup \<Rightarrow> KinematicState \<Rightarrow> KinematicState" where
  "randomParamsGroup rnd rand_r grp s =
     (let bounds = getStateBounds (owner s)
      in fold (randomParamsGroup_step rnd rand_r grp bounds) [0..<group_dimension grp] s)"

definition perturbParams_step ::
  "rounding \<Rightarrow> rand_fun \<Rightarrow> double \<Rightarrow> double list \<Rightarrow> nat \<Rightarrow> KinematicState \<Rightarrow> KinematicState" where
  "perturbParams_step rnd rand_r factor bounds i s =
     (let i2 = 2 * i;
          rs = rand_r (randSeed s);
          d = dmul rnd (dmul rnd factor (dsub rnd (bounds ! (i2 + 1)) (bounds ! i2)))
                       (dsub rnd (dmul rnd (Finite 2) (unit_sample rnd (fst rs))) (Finite 1))
      in s\<lparr>randSeed := snd rs, params := (params s)[i := dadd rnd (params s ! i) d]\<rparr>)"

definition perturbParams ::
  "rounding \<Rightarrow> rand_fun \<Rightarrow> double \<Rightarrow> KinematicState \<Rightarrow> KinematicState" where
  "perturbParams rnd rand_r factor s =
     (let bounds = getStateBounds (owner s);
          dim = getDimension (owner s)
      in enforceBounds (fold (perturbParams_step rnd rand_r factor bounds) [0..<dim] s))"

definition perturbParamsGroup ::
  "rounding \<Rightarrow> rand_fun \<Rightarrow> double \<Rightarrow> JointGroup \<Rightarrow> KinematicState \<Rightarrow> KinematicState" where
  "perturbParamsGroup rnd rand_r factor grp s =
     (let bounds = getStateBounds (owner s)
      in enforceBoundsGroup grp
           (fold (\<lambda>i. perturbParams_step rnd rand_r factor bounds (group_state_index grp ! i))
                 [0..<group_dimension grp] s))"

datatype random_call =
  RandomParams | RandomParamsGroup JointGroup | PerturbParams double

fun random_call_run ::
  "rounding \<Rightarrow> rand_fun \<Rightarrow> random_call \<Rightarrow> KinematicState \<Rightarrow> KinematicState" where
  "random_call_run rnd rand_r RandomParams s = randomParams rnd rand_r s"
| "random_call_run rnd rand_r (RandomParamsGroup g) s = randomParamsGroup rnd rand_r g s"
| "random_call_run rnd rand_r (PerturbParams factor) s = perturbParams rnd rand_r factor s"

definition random_calls_run ::
  "rounding \<Rightarrow> rand_fun \<Rightarrow> random_call list \<Rightarrow> KinematicState \<Rightarrow> KinematicState" where
  \<comment> \<open>A caller issuing the calls one after the other on the same state.\<close>
  "random_calls_run rnd rand_r calls s = fold (random_call_run rnd rand_r) calls s"

fun sampled :: "KinematicModel \<Rightarrow> random_call \<Rightarrow> nat set" where
  \<comment> \<open>The components a call overwrites with a fresh sample, whatever they held.\<close>
  "sampled m RandomParams = {0..<dimension m}"
| "sampled m (RandomParamsGroup g) = set (group_state_index g)"
| "sampled m (PerturbParams factor) = {}"

section \<open>Operations taking a group or joint name\<close>

text \<open>
  Each of these looks the name up in the model and uses the pointer it gets at once
  (\<^verbatim>\<open>group->dimension\<close>, \<^verbatim>\<open>joint->state_index\<close>); a null pointer there is the
  error \<open>NullPointer\<close>.
\<close>

definition defaultParamsGroup_name ::
  "rounding \<Rightarrow> string \<Rightarrow> KinematicState \<Rightarrow> error + KinematicState" where
  "defaultParamsGroup_name rnd grp s =
     (case getGroup (owner s) grp of
        None \<Rightarrow> Inl NullPointer
      | Some g \<Rightarrow> Inr (defaultParamsGroup rnd g s))"

definition randomParamsGroup_name ::
  "rounding \<Rightarrow> rand_fun \<Rightarrow> string \<Rightarrow> KinematicState \<Rightarrow> error + KinematicState" where
  "randomParamsGroup_name rnd rand_r grp s =
     (case getGroup (owner s) grp of
        None \<Rightarrow> Inl NullPointer
      | Some g \<Rightarrow> Inr (randomParamsGroup rnd rand_r g s))"

definition perturbParamsGroup_name ::
  "rounding \<Rightarrow> rand_fun \<Rightarrow> double \<Rightarrow> string \<Rightarrow> KinematicState \<Rightarrow> error + KinematicState" where
  "perturbParamsGroup_name rnd rand_r factor grp s =
     (case getGroup (owner s) grp of
        None \<Rightarrow> Inl NullPointer
      | Some g \<Rightarrow> Inr (perturbParamsGroup rnd rand_r factor g s))"

definition enforceBoundsGroup_name :: "string \<Rightarrow> KinematicState \<Rightarrow> error + KinematicState" where
  "enforceBoundsGroup_name grp s =
     (case getGroup (owner s) grp of
        None \<Rightarrow> Inl NullPointer
      | Some g \<Rightarrow> Inr (enforceBoundsGroup g s))"

definition checkBoundsGroup_name :: "string \<Rightarrow> KinematicState \<Rightarrow> error + bool" where
  "checkBoundsGroup_name grp s =
     (case getGroup (owner s) grp of
        None \<Rightarrow> Inl NullPointer
      | Some g \<Rightarrow> Inr (checkBoundsGroup g s))"

definition checkBoundsJoint :: "string \<Rightarrow> KinematicState \<Rightarrow> error + bool" where
  "checkBoundsJoint n s =
     (let bounds = getStateBounds (owner s)
      in case getJoint (owner s) n of
           None \<Rightarrow> Inl NullPointer
         | Some joint \<Rightarrow>
             (let p = state_index joint + used_params joint
              in Inr (checkBounds_loop bounds (params s) [state_index joint..<p])))"

definition resetGroup_name :: "string \<Rightarrow> KinematicState \<Rightarrow> error + KinematicState" where
  "resetGroup_name grp s =
     (case getGroup (owner s) grp of
        None \<Rightarrow> Inl NullPointer
      | Some g \<Rightarrow> Inr (resetGroup g s))"

definition seenAllGroup_name :: "string \<Rightarrow> KinematicState \<Rightarrow> error + bool" where
  "seenAllGroup_name grp s =
     (case getGroup (owner s) grp of
        None \<Rightarrow> Inl NullPointer
      | Some g \<Rightarrow> Inr (seenAllGroup g s))"

definition seenJoint :: "string \<Rightarrow> KinematicState \<Rightarrow> error + bool" where
  "seenJoint n s =
     (case getJoint (owner s) n of
        None \<Rightarrow> Inl NullPointer
      | Some joint \<Rightarrow>
          Inr (seen_loop (updated s)
                 (map (\<lambda>i. state_index joint + i) [0..<used_params joint])))"

definition getParamsJoint :: "string \<Rightarrow> KinematicState \<Rightarrow> error + double list" where
  \<comment> \<open>The pointer \<^verbatim>\<open>params_ + joint->state_index\<close>: the buffer from that offset on.\<close>
  "getParamsJoint n s =
     (case getJoint (owner s) n of
        None \<Rightarrow> Inl NullPointer
      | Some joint \<Rightarrow> Inr (drop (state_index joint) (params s)))"

definition setParamsJoint_step ::
  "Joint \<Rightarrow> double list \<Rightarrow> nat \<Rightarrow> bool \<times> KinematicState \<Rightarrow> bool \<times> KinematicState" where
  "setParamsJoint_step joint p i rs =
     (let s = snd rs;
          pos_i = state_index joint + i
      in if dne (params s ! pos_i) (p ! i) \<or> \<not> updated s ! pos_i
         then (True, s\<lparr>params := (params s)[pos_i := p ! i],
                       updated := (updated s)[pos_i := True]\<rparr>)
         else rs)"

definition setParamsJoint ::
  "double list \<Rightarrow> string \<Rightarrow> KinematicState \<Rightarrow> error + bool \<times> KinematicState" where
  "setParamsJoint p n s =
     (case getJoint (owner s) n of
        None \<Rightarrow> Inl NullPointer
      | Some joint \<Rightarrow>
          Inr (fold (setParamsJoint_step joint p) [0..<used_params joint] (False, s)))"

definition setParamsGroup_name ::
  "double list \<Rightarrow> string \<Rightarrow> KinematicState \<Rightarrow> error + bool \<times> KinematicState" where
  "setParamsGroup_name p grp s =
     (case getGroup (owner s) grp of
        None \<Rightarrow> Inl NullPointer
      | Some g \<Rightarrow> Inr (setParamsGroup p g s))"

definition setAllInGroup_name ::
  "double \<Rightarrow> string \<Rightarrow> KinematicState \<Rightarrow> error + KinematicState" where
  "setAllInGroup_name v grp s =
     (case getGroup (owner s) grp of
        None \<Rightarrow> Inl NullPointer
      | Some g \<Rightarrow> Inr (setAllInGroup v g s))"

definition copyParamsJoint :: "string \<Rightarrow> KinematicState \<Rightarrow> error + double list" where
  "copyParamsJoint n s =
     (case getJoint (owner s) n of
        None \<Rightarrow> Inl NullPointer
      | Some joint \<Rightarrow>
          Inr (map (\<lambda>i. params s ! i) [state_index joint..<state_index joint + used_params joint]))"

definition copyParamsGroup_name :: "string \<Rightarrow> KinematicState \<Rightarrow> error + double list" where
  "copyParamsGroup_name grp s =
     (case getGroup (owner s) grp of
        None \<Rightarrow> Inl NullPointer
      | Some g \<Rightarrow> Inr (copyParamsGroup g s))"

section \<open>Construction of the model\<close>

text \<open>
  The constructor of the model and its helpers (\<^verbatim>\<open>buildRecursive\<close>,
  \<^verbatim>\<open>constructJoint\<close>) are declared in the header and defined in a file that is not
  among the sources. They are modelled from the spec's description of the construction:
  one depth-first walk from the root over the structural description, which the header
  names \<^verbatim>\<open>urdf::Link\<close> and \<^verbatim>\<open>urdf::Joint\<close>. The description is a tree, so
  a missing parent link or a structure that is not one rooted tree cannot be written
  down; an unknown joint type and a repeated joint or link name make the construction
  fail. The group map is filled after the walk and does not touch the layout of the
  joints; it is left empty here.
\<close>

datatype declared_type =
  DeclFixed | DeclRevolute | DeclContinuous | DeclPrismatic | DeclPlanar | DeclFloating
  | DeclUnknown

record urdf_Joint =
  uj_name :: string
  uj_type :: declared_type
  uj_limits :: "nat \<Rightarrow> double \<times> double"

datatype urdf_Link =
  UrdfLink (ul_name: string) (parent_joint: urdf_Joint) (child_links: "urdf_Link list")

fun usedParams :: "JointVariant \<Rightarrow> nat" where
  \<comment> \<open>Modelled from the spec: the parameter counts 0, 1, 1, 3, 7 of the variants; the
      header's constructors set 3 (planar), 7 (floating), 1 (prismatic) and 1 (revolute),
      and the base constructor, which the fixed joint keeps, is not in the sources.\<close>
  "usedParams Fixed = 0"
| "usedParams (Revolute is_continuous) = 1"
| "usedParams Prismatic = 1"
| "usedParams Planar = 3"
| "usedParams Floating = 7"

fun constructJoint :: "urdf_Joint \<Rightarrow> JointVariant option" where
  \<comment> \<open>Modelled from the spec: \<^verbatim>\<open>constructJoint\<close> is declared only; it makes the
      variant that matches the declared type and fails on an unknown type.\<close>
  "constructJoint uj =
     (case uj_type uj of
        DeclFixed \<Rightarrow> Some Fixed
      | DeclRevolute \<Rightarrow> Some (Revolute False)
      | DeclContinuous \<Rightarrow> Some (Revolute True)
      | DeclPrismatic \<Rightarrow> Some Prismatic
      | DeclPlanar \<Rightarrow> Some Planar
      | DeclFloating \<Rightarrow> Some Floating
      | DeclUnknown \<Rightarrow> None)"

definition joint_bounds :: "double \<times> double \<Rightarrow> urdf_Joint \<Rightarrow> JointVariant \<Rightarrow> double list" where
  \<comment> \<open>Modelled from the spec: the bounds a joint appends, one (min, max) pair for each of
      its parameters; a continuous revolute joint contributes the full-turn range
      \<open>full_turn\<close> (a parameter: the spec does not give its value) in place of its
      declared limits.\<close>
  "joint_bounds full_turn uj v =
     concat (map (\<lambda>k. let mm = (if v = Revolute True then full_turn else uj_limits uj k)
                      in [fst mm, snd mm])
                 [0..<usedParams v])"

fun buildRecursive ::
    "double \<times> double \<Rightarrow> urdf_Link \<Rightarrow> KinematicModel \<Rightarrow> KinematicModel option"
  and buildChildren ::
    "double \<times> double \<Rightarrow> urdf_Link list \<Rightarrow> KinematicModel \<Rightarrow> KinematicModel option"
  where
  \<comment> \<open>Modelled from the spec: \<^verbatim>\<open>buildRecursive\<close> is declared only. For the joint met:
      the variant of its declared type, \<open>state_index\<close> the running dimension, its bound
      pairs appended, the dimension advanced by \<open>used_params\<close>, the joint and link names
      registered, then the children in order.\<close>
  "buildRecursive full_turn (UrdfLink lname uj children) m =
     (case constructJoint uj of
        None \<Rightarrow> None
      | Some v \<Rightarrow>
          if jointMap m (uj_name uj) \<noteq> None \<or> linkMap m lname \<noteq> None then None
          else
            (let joint = \<lparr>name = uj_name uj, variant = v, used_params = usedParams v,
                          state_index = dimension m\<rparr>;
                 m' = m\<lparr>linkMap := (linkMap m)(lname \<mapsto> \<lparr>link_name = lname\<rparr>),
                        jointMap := (jointMap m)(uj_name uj \<mapsto> joint),
                        jointList := jointList m @ [joint],
                        stateBounds := stateBounds m @ joint_bounds full_turn uj v,
                        dimension := dimension m + used_params joint\<rparr>
             in buildChildren full_turn children m'))"
| "buildChildren full_turn [] m = Some m"
| "buildChildren full_turn (c # cs) m =
     (case buildRecursive full_turn c m of
        None \<Rightarrow> None
      | Some m' \<Rightarrow> buildChildren full_turn cs m')"

definition buildModel :: "double \<times> double \<Rightarrow> urdf_Link \<Rightarrow> KinematicModel option" where
  \<comment> \<open>Modelled from the spec: the constructor \<^verbatim>\<open>KinematicModel(const urdf::Model &, ...)\<close>
      is declared only; the walk starts at the root with an empty model and the
      dimension 0, and the dimension of the model is the counter after the walk.\<close>
  "buildModel full_turn root_link =
     buildRecursive full_turn root_link
       \<lparr>groupMap = Map.empty, linkMap = Map.empty, jointMap = Map.empty, jointList = [],
        stateBounds = [], dimension = 0\<rparr>"

definition layout_ok :: "KinematicModel \<Rightarrow> bool" where
  \<comment> \<open>The layout of the state vector: every joint starts where the joints before it in
      \<open>jointList\<close> end, and together they fill the dimension.\<close>
  "layout_ok m =
     ((\<forall>k<length (jointList m).
         state_index (jointList m ! k) = sum_list (map used_params (take k (jointList m))))
      \<and> sum_list (map used_params (jointList m)) = dimension m)"

section \<open>Invariants of the data and example values\<close>

definition state_wf :: "KinematicState \<Rightarrow> bool" where
  \<comment> \<open>Both buffers have the length of the model's dimension, as the constructor and
      \<^verbatim>\<open>copyFrom\<close> allocate them.\<close>
  "state_wf s = (length (params s) = dimension (owner s)
                 \<and> length (updated s) = dimension (owner s))"

definition bounds_wf :: "KinematicModel \<Rightarrow> bool" where
  \<comment> \<open>Well-formed bounds: the minimum of every component is at most its maximum.\<close>
  "bounds_wf m = (\<forall>i<dimension m. dle (stateBounds m ! (2 * i)) (stateBounds m ! (2 * i + 1)))"

definition group_wf :: "KinematicModel \<Rightarrow> JointGroup \<Rightarrow> bool" where
  \<comment> \<open>A group of the model: its index array has \<open>group_dimension\<close> entries, all
      different, each a component of the model.\<close>
  "group_wf m g = (group_dimension g = length (group_state_index g)
                   \<and> distinct (group_state_index g)
                   \<and> (\<forall>j\<in>set (group_state_index g). j < dimension m))"

definition joint_wf :: "KinematicModel \<Rightarrow> Joint \<Rightarrow> bool" where
  \<comment> \<open>A joint of the model: its parameter range lies inside the state vector.\<close>
  "joint_wf m j = (state_index j + used_params j \<le> dimension m)"

definition within_bounds :: "double list \<Rightarrow> double list \<Rightarrow> nat \<Rightarrow> bool" where
  \<comment> \<open>The test of \<^verbatim>\<open>checkBounds\<close> on one component: neither comparison holds (a
      NaN passes it).\<close>
  "within_bounds bounds ps j =
     (\<not> dgt (ps ! j) (bounds ! (2 * j + 1)) \<and> \<not> dlt (ps ! j) (bounds ! (2 * j)))"

definition set_step ::
  "(nat \<Rightarrow> nat) \<Rightarrow> double list \<Rightarrow> nat \<Rightarrow> bool \<times> KinematicState \<Rightarrow> bool \<times> KinematicState" where
  \<comment> \<open>The body shared by the loops of \<^verbatim>\<open>setParams\<close>, \<^verbatim>\<open>setParamsGroup\<close> and
      \<^verbatim>\<open>setParamsJoint\<close>, with the addressing \<open>idx\<close> left open; the lemmas below
      show each loop body equal to it.\<close>
  "set_step idx p i rs =
     (let s = snd rs;
          j = idx i
      in if dne (params s ! j) (p ! i) \<or> \<not> updated s ! j
         then (True, s\<lparr>params := (params s)[j := p ! i],
                       updated := (updated s)[j := True]\<rparr>)
         else rs)"

definition agree_on :: "nat set \<Rightarrow> KinematicState \<Rightarrow> KinematicState \<Rightarrow> bool" where
  \<comment> \<open>Two states of one model with the same seed and buffers of the same length that
      hold the same value in every component of \<open>A\<close>; elsewhere, and in their seen
      flags, they may differ.\<close>
  "agree_on A a b =
     (owner a = owner b \<and> randSeed a = randSeed b \<and> length (params a) = length (params b)
      \<and> (\<forall>k\<in>A. params a ! k = params b ! k))"

definition finite_width :: "rounding \<Rightarrow> double list \<Rightarrow> nat \<Rightarrow> bool" where
  \<comment> \<open>The bounds of component \<open>i\<close> are finite doubles and their width \<open>max - min\<close>
      does not overflow.\<close>
  "finite_width rnd bounds i =
     (\<exists>lo hi w. bounds ! (2 * i) = Finite lo \<and> bounds ! (2 * i + 1) = Finite hi
               \<and> rnd lo = Finite lo \<and> rnd hi = Finite hi \<and> rnd (hi - lo) = Finite w)"

definition finite_widths :: "rounding \<Rightarrow> KinematicModel \<Rightarrow> bool" where
  "finite_widths rnd m = (\<forall>i<dimension m. finite_width rnd (stateBounds m) i)"

definition perturb_finite :: "rounding \<Rightarrow> double \<Rightarrow> KinematicState \<Rightarrow> bool" where
  \<comment> \<open>Every component holds a finite value and the product of the factor and the width
      of its bounds, as \<^verbatim>\<open>perturbParams\<close> computes it, is finite.\<close>
  "perturb_finite rnd factor s =
     (\<forall>i<dimension (owner s).
        (\<exists>x. params s ! i = Finite x)
        \<and> (\<exists>q. dmul rnd factor (dsub rnd (stateBounds (owner s) ! (2 * i + 1))
                                            (stateBounds (owner s) ! (2 * i))) = Finite q))"

definition no_midpoint_overflow :: "rounding \<Rightarrow> KinematicModel \<Rightarrow> bool" where
  \<comment> \<open>Every finite bound is a double whose double is a double too: twice the bound does
      not overflow.\<close>
  "no_midpoint_overflow rnd m =
     (\<forall>k<2 * dimension m.
        \<forall>x. stateBounds m ! k = Finite x \<longrightarrow> rnd x = Finite x \<and> rnd (2 * x) = Finite (2 * x))"

fun random_call_wf :: "KinematicModel \<Rightarrow> random_call \<Rightarrow> bool" where
  \<comment> \<open>A call names a group of the model.\<close>
  "random_call_wf m (RandomParamsGroup g) = group_wf m g"
| "random_call_wf m c = True"

definition inside_bounds :: "double list \<Rightarrow> double list \<Rightarrow> nat \<Rightarrow> bool" where
  \<comment> \<open>Component \<open>j\<close> lies between its minimum and its maximum; a NaN does not.\<close>
  "inside_bounds bounds ps j =
     (dle (bounds ! (2 * j)) (ps ! j) \<and> dle (ps ! j) (bounds ! (2 * j + 1)))"

definition example_joint :: Joint where
  "example_joint = \<lparr>name = ''shoulder'', variant = Revolute False, used_params = 1, state_index = 0\<rparr>"

definition example_group :: JointGroup where
  "example_group =
     \<lparr>group_name = ''arm'', jointNames = [''shoulder''], group_dimension = 1,
      group_state_index = [0]\<rparr>"

definition example_model :: "double \<Rightarrow> double \<Rightarrow> KinematicModel" where
  \<comment> \<open>One revolute joint with the limits \<open>lo\<close> and \<open>hi\<close>, in one group.\<close>
  "example_model lo hi =
     \<lparr>groupMap = [''arm'' \<mapsto> example_group],
      linkMap = [''upper_arm'' \<mapsto> \<lparr>link_name = ''upper_arm''\<rparr>],
      jointMap = [''shoulder'' \<mapsto> example_joint],
      jointList = [example_joint],
      stateBounds = [lo, hi],
      dimension = 1\<rparr>"

definition example_state :: "double \<Rightarrow> double \<Rightarrow> double \<Rightarrow> bool \<Rightarrow> KinematicState" where
  \<comment> \<open>A state of \<open>example_model lo hi\<close> holding the value \<open>v\<close>.\<close>
  "example_state lo hi v seen =
     \<lparr>owner = example_model lo hi, randSeed = 1, params = [v], updated = [seen]\<rparr>"

definition example_description :: urdf_Link where
  \<comment> \<open>A mobile base with an arm of two joints, a fixed camera and a wheel.\<close>
  "example_description =
     UrdfLink ''base'' \<lparr>uj_name = ''world'', uj_type = DeclPlanar, uj_limits = (\<lambda>k. (Finite (-5), Finite 5))\<rparr>
       [UrdfLink ''upper_arm''
          \<lparr>uj_name = ''shoulder'', uj_type = DeclRevolute, uj_limits = (\<lambda>k. (Finite (-1), Finite 1))\<rparr>
          [UrdfLink ''forearm''
             \<lparr>uj_name = ''elbow'', uj_type = DeclPrismatic, uj_limits = (\<lambda>k. (Finite (0), Finite 2))\<rparr> []],
        UrdfLink ''camera''
          \<lparr>uj_name = ''mount'', uj_type = DeclFixed, uj_limits = (\<lambda>k. (Finite (0), Finite 0))\<rparr> [],
        UrdfLink ''wheel''
          \<lparr>uj_name = ''axle'', uj_type = DeclContinuous, uj_limits = (\<lambda>k. (Finite (0), Finite 0))\<rparr> []]"

section \<open>Lemmas\<close>

text \<open>Facts about the comparisons of doubles.\<close>

lemma dlt_irrefl [simp]: "\<not> dlt a a"
  by (cases a) simp_all

lemma dlt_neq: "dlt a b \<Longrightarrow> a \<noteq> b"
  by auto

lemma deq_eq: "deq a b \<Longrightarrow> a = b"
  by (cases a; cases b) simp_all

lemma deq_iff: "deq a b \<longleftrightarrow> a = b \<and> a \<noteq> NaN"
  by (cases a; cases b) auto

lemma dle_not_dlt: "dle a b \<Longrightarrow> \<not> dlt b a"
  by (cases a; cases b) (auto simp: dle_def)

lemma dle_refl_iff: "dle a a \<longleftrightarrow> a \<noteq> NaN"
  by (cases a) (simp_all add: dle_def)

lemma dle_trans: "dle a b \<Longrightarrow> dle b c \<Longrightarrow> dle a c"
  by (cases a; cases b; cases c) (auto simp: dle_def)

lemma dle_Finite [simp]: "dle (Finite x) (Finite y) \<longleftrightarrow> x \<le> y"
  by (auto simp: dle_def)

lemma not_dlt_iff: "a \<noteq> NaN \<Longrightarrow> b \<noteq> NaN \<Longrightarrow> \<not> dlt a b \<longleftrightarrow> dle b a"
  by (cases a; cases b) (auto simp: dle_def)

text \<open>Loops that write one component in each round.\<close>

lemma fold_untouched:
  assumes step: "\<And>i st. P (step i st) = (P st)[idx i := g i st]"
  shows "k \<notin> idx ` set js \<Longrightarrow> P (fold step js st) ! k = P st ! k"
  by (induction js arbitrary: st) (auto simp: step)

lemma fold_touched:
  assumes step: "\<And>i st. P (step i st) = (P st)[idx i := v i]"
  shows "distinct (map idx js) \<Longrightarrow> i \<in> set js \<Longrightarrow> idx i < length (P st)
         \<Longrightarrow> P (fold step js st) ! idx i = v i"
proof (induction js arbitrary: st)
  case Nil
  then show ?case by simp
next
  case (Cons a js)
  show ?case
  proof (cases "i = a")
    case True
    have "idx a \<notin> idx ` set js" using Cons.prems(1) by auto
    then have "P (fold step js (step a st)) ! idx a = P (step a st) ! idx a"
      by (rule fold_untouched [where P = P and g = "\<lambda>i st. v i", OF step])
    then show ?thesis using True Cons.prems(3) by (simp add: step)
  next
    case False
    then have mem: "i \<in> set js" using Cons.prems(2) by simp
    have d: "distinct (map idx js)" using Cons.prems(1) by simp
    have len: "idx i < length (P (step a st))" using Cons.prems(3) by (simp add: step)
    show ?thesis using Cons.IH [OF d mem len] by simp
  qed
qed

lemma checkBounds_loop_iff:
  "checkBounds_loop b ps js = (\<forall>j\<in>set js. within_bounds b ps j)"
  by (induction js) (auto simp: within_bounds_def Let_def)

lemma enforceBounds_step_fields:
  "owner (enforceBounds_step b i s) = owner s"
  "updated (enforceBounds_step b i s) = updated s"
  "randSeed (enforceBounds_step b i s) = randSeed s"
  "length (params (enforceBounds_step b i s)) = length (params s)"
  by (simp_all add: enforceBounds_step_def Let_def)

lemma enforceBounds_step_id:
  "within_bounds b (params s) j \<Longrightarrow> enforceBounds_step b j s = s"
  by (simp add: enforceBounds_step_def within_bounds_def Let_def)

lemma enforceBounds_step_other:
  "k \<noteq> j \<Longrightarrow> params (enforceBounds_step b j s) ! k = params s ! k"
  by (simp add: enforceBounds_step_def Let_def)

lemma enforceBounds_step_keeps:
  "within_bounds b (params s) k \<Longrightarrow> within_bounds b (params (enforceBounds_step b j s)) k"
  by (cases "k = j") (simp_all add: enforceBounds_step_id, simp add: within_bounds_def enforceBounds_step_other)

lemma enforceBounds_step_establish:
  "j < length (params s) \<Longrightarrow> dle (b ! (2 * j)) (b ! (2 * j + 1))
   \<Longrightarrow> within_bounds b (params (enforceBounds_step b j s)) j"
  by (simp add: enforceBounds_step_def within_bounds_def Let_def dgt_def dle_not_dlt)

lemma enforce_fold_fields:
  "owner (fold (enforceBounds_step b) js s) = owner s"
  "updated (fold (enforceBounds_step b) js s) = updated s"
  "randSeed (fold (enforceBounds_step b) js s) = randSeed s"
  "length (params (fold (enforceBounds_step b) js s)) = length (params s)"
  by (induction js arbitrary: s) (simp_all add: enforceBounds_step_fields)

lemma enforce_fold_id:
  "\<forall>j\<in>set js. within_bounds b (params s) j \<Longrightarrow> fold (enforceBounds_step b) js s = s"
  by (induction js arbitrary: s) (simp_all add: enforceBounds_step_id)

lemma enforce_fold_keeps:
  "within_bounds b (params s) k \<Longrightarrow> within_bounds b (params (fold (enforceBounds_step b) js s)) k"
  by (induction js arbitrary: s) (simp_all add: enforceBounds_step_keeps)

lemma enforce_fold_establish:
  "\<forall>j\<in>set js. j < length (params s) \<and> dle (b ! (2 * j)) (b ! (2 * j + 1))
   \<Longrightarrow> \<forall>j\<in>set js. within_bounds b (params (fold (enforceBounds_step b) js s)) j"
proof (induction js arbitrary: s)
  case Nil
  then show ?case by simp
next
  case (Cons a js)
  have a: "within_bounds b (params (enforceBounds_step b a s)) a"
    using Cons.prems by (simp add: enforceBounds_step_establish)
  have "\<forall>j\<in>set js. j < length (params (enforceBounds_step b a s)) \<and> dle (b ! (2 * j)) (b ! (2 * j + 1))"
    using Cons.prems by (simp add: enforceBounds_step_fields)
  from Cons.IH [OF this] enforce_fold_keeps [OF a, of js]
  show ?case by simp
qed

lemma enforce_fold_idem:
  assumes "\<forall>j\<in>set js. j < length (params s) \<and> dle (b ! (2 * j)) (b ! (2 * j + 1))"
  shows "fold (enforceBounds_step b) js (fold (enforceBounds_step b) js s)
         = fold (enforceBounds_step b) js s"
  by (rule enforce_fold_id) (rule enforce_fold_establish [OF assms])

lemma enforceBounds_step_changes:
  "j < length (params s) \<Longrightarrow> \<not> within_bounds b (params s) j
   \<Longrightarrow> params (enforceBounds_step b j s) ! j \<noteq> params s ! j"
  by (auto simp: enforceBounds_step_def within_bounds_def Let_def dgt_def dest: dlt_neq)

lemma enforce_fold_untouched:
  "k \<notin> set js \<Longrightarrow> params (fold (enforceBounds_step b) js s) ! k = params s ! k"
  by (induction js arbitrary: s) (simp_all add: enforceBounds_step_other)

lemma enforce_fold_changes:
  "distinct js \<Longrightarrow> j \<in> set js \<Longrightarrow> j < length (params s) \<Longrightarrow> \<not> within_bounds b (params s) j
   \<Longrightarrow> params (fold (enforceBounds_step b) js s) ! j \<noteq> params s ! j"
proof (induction js arbitrary: s)
  case Nil
  then show ?case by simp
next
  case (Cons a js)
  show ?case
  proof (cases "j = a")
    case True
    have "a \<notin> set js" using Cons.prems(1) by simp
    then have "params (fold (enforceBounds_step b) js (enforceBounds_step b a s)) ! a
          = params (enforceBounds_step b a s) ! a"
      by (rule enforce_fold_untouched)
    then show ?thesis
      using True enforceBounds_step_changes [of a s b] Cons.prems(3,4) by simp
  next
    case False
    let ?s = "enforceBounds_step b a s"
    have same: "params ?s ! j = params s ! j"
      using False by (simp add: enforceBounds_step_other)
    have d: "distinct js" and mem: "j \<in> set js"
      using Cons.prems(1,2) False by simp_all
    have len: "j < length (params ?s)"
      using Cons.prems(3) by (simp add: enforceBounds_step_fields)
    have out: "\<not> within_bounds b (params ?s) j"
      using Cons.prems(4) same by (simp add: within_bounds_def)
    show ?thesis using Cons.IH [OF d mem len out] same by simp
  qed
qed

lemma enforceBoundsGroup_step_eq:
  "enforceBoundsGroup_step g b = (\<lambda>i. enforceBounds_step b (group_state_index g ! i))"
  by (rule ext)+ (simp add: enforceBoundsGroup_step_def enforceBounds_step_def Let_def)

lemma enforceBoundsGroup_fold:
  "enforceBoundsGroup g s =
     fold (enforceBounds_step (stateBounds (owner s)))
          (map (\<lambda>i. group_state_index g ! i) [0..<group_dimension g]) s"
  by (simp add: enforceBoundsGroup_def getStateBounds_def enforceBoundsGroup_step_eq fold_map comp_def)

lemma enforceBounds_fold:
  "enforceBounds s = fold (enforceBounds_step (stateBounds (owner s))) [0..<dimension (owner s)] s"
  by (simp add: enforceBounds_def getStateBounds_def getDimension_def)

lemma exact_rounding_small:
  "- DBL_MAX \<le> x \<Longrightarrow> x \<le> DBL_MAX \<Longrightarrow> exact_rounding x = Finite x"
  by (simp add: exact_rounding_def)

lemma DBL_MAX_big: "2 ^ 53 \<le> DBL_MAX"
  by (simp add: DBL_MAX_def)

lemma exact_rounding_examples [simp]:
  "exact_rounding 0 = Finite 0"
  "exact_rounding 1 = Finite 1"
  "exact_rounding 2 = Finite 2"
  "exact_rounding 4 = Finite 4"
  using DBL_MAX_big by (simp_all add: exact_rounding_def)

lemma defaultParams_step_params:
  "params (defaultParams_step rnd b i s) =
     (params s)[i := (if dle (b ! (2 * i)) (Finite 0) \<and> dge (b ! (2 * i + 1)) (Finite 0) then Finite 0
                      else ddiv rnd (dadd rnd (b ! (2 * i)) (b ! (2 * i + 1))) (Finite 2))]"
  by (simp add: defaultParams_step_def Let_def)

lemma defaultParams_step_updated:
  "updated (defaultParams_step rnd b i s) = (updated s)[i := True]"
  by (simp add: defaultParams_step_def Let_def)

lemma defaultParams_nth:
  assumes "i < dimension (owner s)" and "length (params s) = dimension (owner s)"
  shows "params (defaultParams rnd s) ! i =
          (if dle (stateBounds (owner s) ! (2 * i)) (Finite 0)
              \<and> dge (stateBounds (owner s) ! (2 * i + 1)) (Finite 0) then Finite 0
           else ddiv rnd (dadd rnd (stateBounds (owner s) ! (2 * i))
                                   (stateBounds (owner s) ! (2 * i + 1))) (Finite 2))"
  unfolding defaultParams_def Let_def getDimension_def getStateBounds_def
  using fold_touched [where P = params and idx = "\<lambda>i. i"
      and step = "defaultParams_step rnd (stateBounds (owner s))"
      and js = "[0..<dimension (owner s)]" and i = i and st = s, OF defaultParams_step_params]
    assms
  by simp

lemma defaultParams_updated_nth:
  assumes "i < dimension (owner s)" and "length (updated s) = dimension (owner s)"
  shows "updated (defaultParams rnd s) ! i = True"
  unfolding defaultParams_def Let_def getDimension_def getStateBounds_def
  using fold_touched [where P = updated and idx = "\<lambda>i. i"
      and step = "defaultParams_step rnd (stateBounds (owner s))"
      and js = "[0..<dimension (owner s)]" and i = i and st = s and v = "\<lambda>i. True",
      OF defaultParams_step_updated]
    assms
  by simp

text \<open>The midpoint in double arithmetic.\<close>

lemma rounding_mono:
  "ieee_rounding rnd \<Longrightarrow> x \<le> y \<Longrightarrow> dle (rnd x) (rnd y)"
  by (simp add: ieee_rounding_def)

lemma rounding_not_NaN: "ieee_rounding rnd \<Longrightarrow> rnd x \<noteq> NaN"
  using rounding_mono [of rnd x x] by (auto simp: dle_refl_iff)

lemma rounding_between:
  assumes r: "ieee_rounding rnd" and lo: "rnd a = Finite a" and hi: "rnd b = Finite b"
    and "a \<le> x" and "x \<le> b"
  shows "\<exists>y. rnd x = Finite y \<and> a \<le> y \<and> y \<le> b"
proof -
  have "dle (Finite a) (rnd x)" and "dle (rnd x) (Finite b)"
    using rounding_mono [OF r \<open>a \<le> x\<close>] rounding_mono [OF r \<open>x \<le> b\<close>] lo hi by simp_all
  then show ?thesis
    by (cases "rnd x") (auto simp: dle_def)
qed

lemma midpoint_finite:
  assumes r: "ieee_rounding rnd"
    and a: "rnd a = Finite a" "rnd (2 * a) = Finite (2 * a)"
    and b: "rnd b = Finite b" "rnd (2 * b) = Finite (2 * b)"
    and "a \<le> b"
  shows "\<exists>m. ddiv rnd (dadd rnd (Finite a) (Finite b)) (Finite 2) = Finite m \<and> a \<le> m \<and> m \<le> b"
proof -
  obtain c where c: "rnd (a + b) = Finite c" "2 * a \<le> c" "c \<le> 2 * b"
    using rounding_between [OF r a(2) b(2), of "a + b"] \<open>a \<le> b\<close> by auto
  obtain m where m: "rnd (c / 2) = Finite m" "a \<le> m" "m \<le> b"
    using rounding_between [OF r a(1) b(1), of "c / 2"] c(2,3) by auto
  show ?thesis using c(1) m by simp
qed

lemma midpoint_within:
  assumes r: "ieee_rounding rnd"
    and wf: "dle lo hi"
    and nz: "\<not> (dle lo (Finite 0) \<and> dge hi (Finite 0))"
    and lo: "\<forall>x. lo = Finite x \<longrightarrow> rnd x = Finite x \<and> rnd (2 * x) = Finite (2 * x)"
    and hi: "\<forall>x. hi = Finite x \<longrightarrow> rnd x = Finite x \<and> rnd (2 * x) = Finite (2 * x)"
  shows "dle lo (ddiv rnd (dadd rnd lo hi) (Finite 2))
       \<and> dle (ddiv rnd (dadd rnd lo hi) (Finite 2)) hi"
proof (cases lo)
  case (Finite a)
  note loF = this
  show ?thesis
  proof (cases hi)
    case (Finite b)
    have "a \<le> b" using wf loF Finite by simp
    from midpoint_finite [OF r _ _ _ _ this, of] lo hi loF Finite
    obtain m where "ddiv rnd (dadd rnd (Finite a) (Finite b)) (Finite 2) = Finite m"
      "a \<le> m" "m \<le> b" by blast
    then show ?thesis using loF Finite by simp
  next
    case PInf
    then show ?thesis using loF by (simp add: dle_def)
  next
    case NInf
    then show ?thesis using wf loF by (simp add: dle_def)
  next
    case NaN
    then show ?thesis using wf loF by (simp add: dle_def)
  qed
next
  case PInf
  then show ?thesis using wf by (cases hi) (simp_all add: dle_def)
next
  case NInf
  note loN = this
  show ?thesis
  proof (cases hi)
    case (Finite b)
    then show ?thesis using loN by (simp add: dle_def)
  qed (use wf nz loN in \<open>simp_all add: dle_def dge_def\<close>)
next
  case NaN
  then show ?thesis using wf by (simp add: dle_def)
qed

lemma DBL_MAX_pos: "0 < DBL_MAX"
  by (simp add: DBL_MAX_def)

lemma dyadic_small:
  fixes n :: int
  assumes "\<bar>n\<bar> \<le> 2 ^ 53"
  shows "\<bar>real_of_int n / 2 ^ k\<bar> \<le> DBL_MAX"
proof -
  have "\<bar>real_of_int n\<bar> / 2 ^ k \<le> \<bar>real_of_int n\<bar> / 1"
    by (rule divide_left_mono) simp_all
  then have "\<bar>real_of_int n / 2 ^ k\<bar> \<le> \<bar>real_of_int n\<bar>"
    by simp
  also have "\<dots> \<le> 2 ^ 53"
    using assms by (metis of_int_abs of_int_le_iff of_int_numeral of_int_power)
  finally show ?thesis using DBL_MAX_big by simp
qed

lemma DBL_MIN_small: "1 / 2 ^ 1022 \<le> DBL_MAX"
  using dyadic_small [of 1 1022] by simp

lemma ieee_rounding_exact: "ieee_rounding exact_rounding"
  unfolding ieee_rounding_def
proof (intro conjI allI impI)
  fix x y :: real
  assume "x \<le> y"
  then show "dle (exact_rounding x) (exact_rounding y)"
    using DBL_MAX_pos by (auto simp: exact_rounding_def dle_def)
next
  fix x y
  assume "exact_rounding x = Finite y"
  then show "exact_rounding y = Finite y"
    by (auto simp: exact_rounding_def split: if_splits)
next
  fix x
  show "exact_rounding (- x) = dneg (exact_rounding x)"
    using DBL_MAX_pos by (auto simp: exact_rounding_def)
next
  fix n :: int and k :: nat
  assume "\<bar>n\<bar> \<le> 2 ^ 53 \<and> k \<le> 1022"
  then have "\<bar>n\<bar> \<le> 2 ^ 53" by blast
  then have "\<bar>real_of_int n / 2 ^ k\<bar> \<le> DBL_MAX" by (rule dyadic_small)
  then show "exact_rounding (real_of_int n / 2 ^ k) = Finite (real_of_int n / 2 ^ k)"
    by (intro exact_rounding_small) linarith+
next
  fix x y
  assume "exact_rounding x = Finite y \<and> 1 / 2 ^ 1022 \<le> \<bar>x\<bar>"
  then have "y = x" by (auto simp: exact_rounding_def split: if_splits)
  then show "\<bar>y - x\<bar> \<le> \<bar>x\<bar> / 2 ^ 53" by simp
next
  fix a b
  assume "exact_rounding a = Finite a \<and> exact_rounding b = Finite b \<and> \<bar>b - a\<bar> \<le> 1 / 2 ^ 1022"
  then have "\<bar>b - a\<bar> \<le> DBL_MAX" using DBL_MIN_small by linarith
  then show "exact_rounding (b - a) = Finite (b - a)"
    by (intro exact_rounding_small) linarith+
qed

lemma defaultParamsGroup_step_updated:
  "updated (defaultParamsGroup_step rnd g b i s) = updated s"
  by (simp add: defaultParamsGroup_step_def Let_def)

lemma defaultParamsGroup_updated:
  "updated (defaultParamsGroup rnd g s) = updated s"
proof -
  have "updated (fold (defaultParamsGroup_step rnd g b) js s) = updated s" for b js
    by (induction js arbitrary: s) (simp_all add: defaultParamsGroup_step_updated)
  then show ?thesis by (simp add: defaultParamsGroup_def Let_def)
qed

lemma fresh_example_state:
  "KinematicState_new rnd now heap (example_model lo hi) =
     \<lparr>owner = example_model lo hi, randSeed = of_nat (now mod UINT_MAX),
      params = [if dle lo (Finite 0) \<and> dge hi (Finite 0) then Finite 0
                else ddiv rnd (dadd rnd lo hi) (Finite 2)],
      updated = [False]\<rparr>"
  by (simp add: KinematicState_new_def reset_def reset_step_def defaultParams_def
      defaultParams_step_def getDimension_def getStateBounds_def example_model_def Let_def)

lemma DBL_MIN_pos: "0 < DBL_MIN"
  by (simp add: DBL_MIN_def)

lemma dgt_Finite_iff:
  "dgt d (Finite m) \<longleftrightarrow> d \<noteq> NaN \<and> \<not> dle d (Finite m)"
  by (cases d) (auto simp: dgt_def dle_def)

lemma eq_loop_iff:
  "eq_loop rnd ps qs js =
     (\<forall>i\<in>set js. dabs (dsub rnd (ps ! i) (qs ! i)) = NaN
                  \<or> dle (dabs (dsub rnd (ps ! i) (qs ! i))) (Finite DBL_MIN))"
  by (induction js) (auto simp: dgt_Finite_iff)

lemma dabs_NaN [simp]: "dabs d = NaN \<longleftrightarrow> d = NaN"
  by (cases d) simp_all

lemma dadd_NaN_right [simp]: "dadd rnd a NaN = NaN"
  by (cases a) simp_all

lemma dsub_NaN [simp]: "dsub rnd NaN b = NaN" "dsub rnd a NaN = NaN"
  by (simp_all add: dsub_def)

lemma setParams_step_eq: "setParams_step p = set_step (\<lambda>i. i) p"
  by (rule ext)+ (simp add: setParams_step_def set_step_def Let_def)

lemma setParamsGroup_step_eq:
  "setParamsGroup_step g p = set_step (\<lambda>i. group_state_index g ! i) p"
  by (rule ext)+ (simp add: setParamsGroup_step_def set_step_def Let_def)

lemma setParamsJoint_step_eq:
  "setParamsJoint_step j p = set_step (\<lambda>i. state_index j + i) p"
  by (rule ext)+ (simp add: setParamsJoint_step_def set_step_def Let_def)

lemma list_update_same: "xs ! j = v \<Longrightarrow> xs[j := v] = xs"
  by auto

lemma set_step_params:
  "params (snd (set_step idx p i rs)) = (params (snd rs))[idx i := p ! i]"
  by (simp add: set_step_def Let_def list_update_same dne_def deq_eq)

lemma set_step_updated:
  "updated (snd (set_step idx p i rs)) = (updated (snd rs))[idx i := True]"
  by (simp add: set_step_def Let_def list_update_same)

lemma set_fold_result:
  "fst (fold (set_step idx p) js (r, s)) =
     (r \<or> (\<exists>i\<in>set js. dne (params s ! idx i) (p ! i) \<or> \<not> updated s ! idx i))"
proof (induction js arbitrary: r s)
  case Nil
  then show ?case by simp
next
  case (Cons a js)
  show ?case
  proof (cases "dne (params s ! idx a) (p ! a) \<or> \<not> updated s ! idx a")
    case True
    then have "set_step idx p a (r, s) =
        (True, s\<lparr>params := (params s)[idx a := p ! a], updated := (updated s)[idx a := True]\<rparr>)"
      by (simp add: set_step_def Let_def)
    then show ?thesis using True by (simp add: Cons.IH)
  next
    case False
    then have "set_step idx p a (r, s) = (r, s)"
      by (simp add: set_step_def Let_def)
    then show ?thesis using False by (simp add: Cons.IH)
  qed
qed

lemma set_fold_unchanged:
  "\<forall>i\<in>set js. \<not> (dne (params s ! idx i) (p ! i) \<or> \<not> updated s ! idx i)
   \<Longrightarrow> fold (set_step idx p) js (r, s) = (r, s)"
  by (induction js) (simp_all add: set_step_def Let_def)

lemma set_fold_false_unchanged:
  assumes "\<not> fst (fold (set_step idx p) js (False, s))"
  shows "snd (fold (set_step idx p) js (False, s)) = s"
proof -
  have "\<forall>i\<in>set js. \<not> (dne (params s ! idx i) (p ! i) \<or> \<not> updated s ! idx i)"
    using assms by (simp only: set_fold_result) blast
  then show ?thesis by (simp add: set_fold_unchanged)
qed

lemma set_fold_params:
  assumes "distinct (map idx js)" and "i \<in> set js" and "idx i < length (params s)"
  shows "params (snd (fold (set_step idx p) js (r, s))) ! idx i = p ! i"
  using fold_touched [where P = "\<lambda>rs. params (snd rs)" and step = "set_step idx p" and idx = idx
      and v = "\<lambda>i. p ! i" and js = js and i = i and st = "(r, s)", OF set_step_params] assms
  by simp

lemma set_fold_updated:
  assumes "distinct (map idx js)" and "i \<in> set js" and "idx i < length (updated s)"
  shows "updated (snd (fold (set_step idx p) js (r, s))) ! idx i"
  using fold_touched [where P = "\<lambda>rs. updated (snd rs)" and step = "set_step idx p" and idx = idx
      and v = "\<lambda>i. True" and js = js and i = i and st = "(r, s)", OF set_step_updated] assms
  by simp

text \<open>The contract of one loop of the family, for an addressing without repetition.\<close>

lemma set_fold_contract:
  assumes d: "distinct (map idx [0..<n])"
    and lp: "\<forall>i<n. idx i < length (params s)"
    and lu: "\<forall>i<n. idx i < length (updated s)"
  shows "(\<forall>i<n. params (snd (fold (set_step idx p) [0..<n] (False, s))) ! idx i = p ! i
               \<and> updated (snd (fold (set_step idx p) [0..<n] (False, s))) ! idx i)
       \<and> (fst (fold (set_step idx p) [0..<n] (False, s))
            \<longleftrightarrow> (\<exists>i<n. dne (params s ! idx i) (p ! i) \<or> \<not> updated s ! idx i))
       \<and> (\<not> fst (fold (set_step idx p) [0..<n] (False, s))
            \<longrightarrow> snd (fold (set_step idx p) [0..<n] (False, s)) = s)"
proof (intro conjI allI impI)
  fix i assume "i < n"
  then show "params (snd (fold (set_step idx p) [0..<n] (False, s))) ! idx i = p ! i"
    using d lp by (intro set_fold_params) simp_all
next
  fix i assume "i < n"
  then show "updated (snd (fold (set_step idx p) [0..<n] (False, s))) ! idx i"
    using d lu by (intro set_fold_updated) simp_all
next
  show "fst (fold (set_step idx p) [0..<n] (False, s))
            \<longleftrightarrow> (\<exists>i<n. dne (params s ! idx i) (p ! i) \<or> \<not> updated s ! idx i)"
    by (simp add: set_fold_result Bex_def)
next
  assume "\<not> fst (fold (set_step idx p) [0..<n] (False, s))"
  then show "snd (fold (set_step idx p) [0..<n] (False, s)) = s"
    by (rule set_fold_false_unchanged)
qed

lemma layout_ok_extend:
  assumes "layout_ok m"
  shows "layout_ok (m\<lparr>linkMap := lm, jointMap := jm,
                      jointList := jointList m @ [\<lparr>name = n, variant = v, used_params = u,
                                                  state_index = dimension m\<rparr>],
                      stateBounds := sb, dimension := dimension m + u\<rparr>)"
  using assms by (auto simp: layout_ok_def nth_append less_Suc_eq)

lemma build_layout_ok:
  "layout_ok m \<Longrightarrow> buildRecursive ft l m = Some m' \<Longrightarrow> layout_ok m'"
  "layout_ok m \<Longrightarrow> buildChildren ft cs m = Some m' \<Longrightarrow> layout_ok m'"
proof (induction ft l m and ft cs m arbitrary: m' and m' rule: buildRecursive_buildChildren.induct)
  case (1 full_turn lname uj children m)
  from "1.prems"(2) obtain v where v: "constructJoint uj = Some v"
    by (auto split: option.splits simp del: constructJoint.simps)
  from "1.prems"(2) v have free: "\<not> (jointMap m (uj_name uj) \<noteq> None \<or> linkMap m lname \<noteq> None)"
    by (auto split: if_splits simp del: constructJoint.simps)
  let ?joint = "\<lparr>name = uj_name uj, variant = v, used_params = usedParams v,
                          state_index = dimension m\<rparr>"
  let ?m = "m\<lparr>linkMap := (linkMap m)(lname \<mapsto> \<lparr>link_name = lname\<rparr>),
                        jointMap := (jointMap m)(uj_name uj \<mapsto> ?joint),
                        jointList := jointList m @ [?joint],
                        stateBounds := stateBounds m @ joint_bounds full_turn uj v,
                        dimension := dimension m + used_params ?joint\<rparr>"
  have ok: "layout_ok ?m"
    using layout_ok_extend [OF "1.prems"(1)] by simp
  have run: "buildChildren full_turn children ?m = Some m'"
    using "1.prems"(2) v free by (simp add: Let_def del: constructJoint.simps)
  show ?case
    by (rule "1.IH" [OF v free refl refl ok run])
next
  case (2 full_turn m)
  then show ?case by simp
next
  case (3 full_turn c cs m)
  from "3.prems"(2) obtain m1 where m1: "buildRecursive full_turn c m = Some m1"
    and rest: "buildChildren full_turn cs m1 = Some m'"
    by (auto split: option.splits)
  have "layout_ok m1" by (rule "3.IH"(1) [OF "3.prems"(1) m1])
  then show ?case by (rule "3.IH"(2) [OF m1 _ rest])
qed

lemma prefix_sum_le:
  fixes ns :: "nat list"
  assumes "k < length ns"
  shows "sum_list (take k ns) + ns ! k \<le> sum_list ns"
proof -
  have "ns = take k ns @ ns ! k # drop (Suc k) ns"
    using assms by (simp add: id_take_nth_drop)
  then have "sum_list ns = sum_list (take k ns) + ns ! k + sum_list (drop (Suc k) ns)"
    by (metis add.assoc sum_list.Cons sum_list.append)
  then show ?thesis by simp
qed

lemma prefix_sums_partition:
  fixes ns :: "nat list"
  shows "i < sum_list ns \<Longrightarrow>
         \<exists>!k. k < length ns \<and> sum_list (take k ns) \<le> i \<and> i < sum_list (take k ns) + ns ! k"
proof (induction ns rule: rev_induct)
  case Nil
  then show ?case by simp
next
  case (snoc x xs)
  show ?case
  proof (cases "i < sum_list xs")
    case True
    from snoc.IH [OF True] obtain k where k: "k < length xs" "sum_list (take k xs) \<le> i"
      "i < sum_list (take k xs) + xs ! k"
      and uniq: "\<And>k'. k' < length xs \<and> sum_list (take k' xs) \<le> i
                       \<and> i < sum_list (take k' xs) + xs ! k' \<Longrightarrow> k' = k"
      by blast
    show ?thesis
    proof (rule ex1I [of _ k])
      show "k < length (xs @ [x]) \<and> sum_list (take k (xs @ [x])) \<le> i
            \<and> i < sum_list (take k (xs @ [x])) + (xs @ [x]) ! k"
        using k by (simp add: nth_append)
    next
      fix k'
      assume a: "k' < length (xs @ [x]) \<and> sum_list (take k' (xs @ [x])) \<le> i
            \<and> i < sum_list (take k' (xs @ [x])) + (xs @ [x]) ! k'"
      have "k' \<noteq> length xs" using a True by auto
      then have "k' < length xs" using a by simp
      then show "k' = k" using a uniq [of k'] by (simp add: nth_append)
    qed
  next
    case False
    show ?thesis
    proof (rule ex1I [of _ "length xs"])
      show "length xs < length (xs @ [x]) \<and> sum_list (take (length xs) (xs @ [x])) \<le> i
            \<and> i < sum_list (take (length xs) (xs @ [x])) + (xs @ [x]) ! length xs"
        using False snoc.prems by simp
    next
      fix k'
      assume a: "k' < length (xs @ [x]) \<and> sum_list (take k' (xs @ [x])) \<le> i
            \<and> i < sum_list (take k' (xs @ [x])) + (xs @ [x]) ! k'"
      show "k' = length xs"
      proof (rule ccontr)
        assume "k' \<noteq> length xs"
        then have lt: "k' < length xs" using a by simp
        from prefix_sum_le [OF lt] a lt False show False
          by (simp add: nth_append)
      qed
    qed
  qed
qed

lemma example_description_layout:
  "map state_index (jointList (the (buildModel (Finite (-4), Finite 4) example_description))) = [0, 3, 4, 5, 5]"
  "map used_params (jointList (the (buildModel (Finite (-4), Finite 4) example_description))) = [3, 1, 1, 0, 1]"
  "dimension (the (buildModel (Finite (-4), Finite 4) example_description)) = 6"
  "buildModel (Finite (-4), Finite 4) example_description \<noteq> None"
  by (simp_all add: buildModel_def example_description_def Let_def)

text \<open>Two states with the same seed: what the sampling operations keep equal.\<close>

lemma fold_related:
  assumes "\<And>i a b. R a b \<Longrightarrow> R (step i a) (step i b)"
  shows "R a b \<Longrightarrow> R (fold step js a) (fold step js b)"
  by (induction js arbitrary: a b) (simp_all add: assms)

lemma agree_on_subset: "agree_on A a b \<Longrightarrow> B \<subseteq> A \<Longrightarrow> agree_on B a b"
  by (auto simp: agree_on_def)

lemma randomParams_step_agree:
  assumes "agree_on A a b" and "i < length (params a)"
  shows "agree_on (insert i A) (randomParams_step rnd rand_r bounds i a)
                               (randomParams_step rnd rand_r bounds i b)"
  using assms by (auto simp: agree_on_def randomParams_step_def Let_def nth_list_update)

lemma random_fold_agree:
  "agree_on A a b \<Longrightarrow> \<forall>j\<in>set js. j < length (params a)
   \<Longrightarrow> agree_on (A \<union> set js) (fold (randomParams_step rnd rand_r bounds) js a)
                               (fold (randomParams_step rnd rand_r bounds) js b)"
proof (induction js arbitrary: A a b)
  case Nil
  then show ?case by simp
next
  case (Cons j js)
  let ?a = "randomParams_step rnd rand_r bounds j a"
  let ?b = "randomParams_step rnd rand_r bounds j b"
  have 1: "agree_on (insert j A) ?a ?b"
    using Cons.prems by (intro randomParams_step_agree) simp_all
  have 2: "\<forall>k\<in>set js. k < length (params ?a)"
    using Cons.prems(2) by (simp add: randomParams_step_def Let_def)
  have "agree_on (insert j A \<union> set js) (fold (randomParams_step rnd rand_r bounds) js ?a)
                                        (fold (randomParams_step rnd rand_r bounds) js ?b)"
    by (rule Cons.IH [OF 1 2])
  then show ?case by simp
qed

lemma nth_list_update_gen:
  "xs[i := v] ! k = (if k = i \<and> i < length xs then v else xs ! k)"
  by (cases "i < length xs") (auto simp: nth_list_update list_update_beyond)

lemma update_agree:
  assumes "\<forall>k\<in>A. xs ! k = ys ! k" and "length xs = length ys" and "i \<in> A \<Longrightarrow> u = v"
  shows "\<forall>k\<in>A. xs[i := u] ! k = ys[i := v] ! k"
  using assms by (auto simp: nth_list_update_gen)

lemma perturbParams_step_params:
  "params (perturbParams_step rnd rand_r factor bounds i s) =
     (params s)[i := dadd rnd (params s ! i)
        (dmul rnd (dmul rnd factor (dsub rnd (bounds ! (2 * i + 1)) (bounds ! (2 * i))))
                  (dsub rnd (dmul rnd (Finite 2) (unit_sample rnd (fst (rand_r (randSeed s)))))
                            (Finite 1)))]"
  by (simp add: perturbParams_step_def Let_def)

lemma perturbParams_step_agree:
  assumes "agree_on A a b"
  shows "agree_on A (perturbParams_step rnd rand_r factor bounds i a)
                    (perturbParams_step rnd rand_r factor bounds i b)"
proof -
  have s: "randSeed a = randSeed b" and l: "length (params a) = length (params b)"
    and o: "owner a = owner b" and k: "\<forall>k\<in>A. params a ! k = params b ! k"
    using assms by (simp_all add: agree_on_def)
  have "\<forall>k\<in>A. params (perturbParams_step rnd rand_r factor bounds i a) ! k
              = params (perturbParams_step rnd rand_r factor bounds i b) ! k"
    unfolding perturbParams_step_params
    by (rule update_agree [OF k l]) (use k s in simp)
  then show ?thesis
    using s l o by (simp add: agree_on_def perturbParams_step_def Let_def)
qed

lemma enforceBounds_step_params:
  "params (enforceBounds_step bounds i s) =
     (params s)[i := (if dgt (params s ! i) (bounds ! (2 * i + 1)) then bounds ! (2 * i + 1)
                      else if dlt (params s ! i) (bounds ! (2 * i)) then bounds ! (2 * i)
                      else params s ! i)]"
  by (simp add: enforceBounds_step_def Let_def)

lemma enforceBounds_step_agree:
  assumes "agree_on A a b"
  shows "agree_on A (enforceBounds_step bounds i a) (enforceBounds_step bounds i b)"
proof -
  have s: "randSeed a = randSeed b" and l: "length (params a) = length (params b)"
    and o: "owner a = owner b" and k: "\<forall>k\<in>A. params a ! k = params b ! k"
    using assms by (simp_all add: agree_on_def)
  have "\<forall>k\<in>A. params (enforceBounds_step bounds i a) ! k
              = params (enforceBounds_step bounds i b) ! k"
    unfolding enforceBounds_step_params
    by (rule update_agree [OF k l]) (use k in simp)
  then show ?thesis
    using s l o by (simp add: agree_on_def enforceBounds_step_fields)
qed

lemma randomParamsGroup_step_eq:
  "randomParamsGroup_step rnd rand_r g b
     = (\<lambda>i. randomParams_step rnd rand_r b (group_state_index g ! i))"
  by (rule ext)+ (simp add: randomParamsGroup_step_def randomParams_step_def Let_def)

lemma randomParamsGroup_fold:
  "group_dimension g = length (group_state_index g) \<Longrightarrow>
   randomParamsGroup rnd rand_r g s =
     fold (randomParams_step rnd rand_r (stateBounds (owner s))) (group_state_index g) s"
  by (simp add: randomParamsGroup_def getStateBounds_def randomParamsGroup_step_eq
      fold_map [symmetric, unfolded comp_def] map_nth)

lemma randomParams_fold:
  "randomParams rnd rand_r s =
     fold (randomParams_step rnd rand_r (stateBounds (owner s))) [0..<dimension (owner s)] s"
  by (simp add: randomParams_def getStateBounds_def getDimension_def)

lemma randomParams_step_fields:
  "owner (randomParams_step rnd rand_r b i s) = owner s"
  "length (params (randomParams_step rnd rand_r b i s)) = length (params s)"
  by (simp_all add: randomParams_step_def Let_def)

lemma random_fold_fields:
  "owner (fold (randomParams_step rnd rand_r b) js s) = owner s"
  "length (params (fold (randomParams_step rnd rand_r b) js s)) = length (params s)"
  by (induction js arbitrary: s) (simp_all add: randomParams_step_fields)

lemma perturbParams_step_fields:
  "owner (perturbParams_step rnd rand_r f b i s) = owner s"
  "length (params (perturbParams_step rnd rand_r f b i s)) = length (params s)"
  by (simp_all add: perturbParams_step_def Let_def)

lemma perturb_fold_fields:
  "owner (fold (perturbParams_step rnd rand_r f b) js s) = owner s"
  "length (params (fold (perturbParams_step rnd rand_r f b) js s)) = length (params s)"
  by (induction js arbitrary: s) (simp_all add: perturbParams_step_fields)

lemma random_call_run_fields:
  "owner (random_call_run rnd rand_r c s) = owner s"
  "length (params (random_call_run rnd rand_r c s)) = length (params s)"
  by (cases c; simp add: randomParams_fold randomParamsGroup_def randomParamsGroup_step_eq
      perturbParams_def enforceBounds_fold random_fold_fields perturb_fold_fields
      enforce_fold_fields getStateBounds_def getDimension_def Let_def
      fold_map [symmetric, unfolded comp_def])+

lemma random_call_run_agree:
  assumes ag: "agree_on A a b" and len: "length (params a) = dimension (owner a)"
    and wf: "random_call_wf (owner a) c"
  shows "agree_on (A \<union> sampled (owner a) c)
           (random_call_run rnd rand_r c a) (random_call_run rnd rand_r c b)"
proof (cases c)
  case RandomParams
  have o: "owner b = owner a" using ag by (simp add: agree_on_def)
  have "\<forall>j\<in>set [0..<dimension (owner a)]. j < length (params a)"
    using len by simp
  from random_fold_agree [OF ag this]
  show ?thesis using RandomParams by (simp add: randomParams_fold o)
next
  case (RandomParamsGroup g)
  have o: "owner b = owner a" using ag by (simp add: agree_on_def)
  have g: "group_dimension g = length (group_state_index g)"
    and "\<forall>j\<in>set (group_state_index g). j < length (params a)"
    using wf len RandomParamsGroup by (simp_all add: group_wf_def)
  from random_fold_agree [OF ag this(2)]
  show ?thesis using RandomParamsGroup by (simp add: randomParamsGroup_fold [OF g] o)
next
  case (PerturbParams factor)
  have o: "owner b = owner a" using ag by (simp add: agree_on_def)
  have "agree_on A
          (fold (perturbParams_step rnd rand_r factor (stateBounds (owner a))) [0..<dimension (owner a)] a)
          (fold (perturbParams_step rnd rand_r factor (stateBounds (owner a))) [0..<dimension (owner a)] b)"
    by (rule fold_related [where R = "agree_on A"]) (rule perturbParams_step_agree, assumption, rule ag)
  then have "agree_on A
          (fold (enforceBounds_step (stateBounds (owner a))) [0..<dimension (owner a)]
             (fold (perturbParams_step rnd rand_r factor (stateBounds (owner a))) [0..<dimension (owner a)] a))
          (fold (enforceBounds_step (stateBounds (owner a))) [0..<dimension (owner a)]
             (fold (perturbParams_step rnd rand_r factor (stateBounds (owner a))) [0..<dimension (owner a)] b))"
    by (rule fold_related [where R = "agree_on A", rotated]) (rule enforceBounds_step_agree)
  then show ?thesis
    using PerturbParams
    by (simp add: perturbParams_def enforceBounds_fold perturb_fold_fields getStateBounds_def
        getDimension_def o)
qed

lemma random_calls_run_agree:
  "agree_on A a b \<Longrightarrow> length (params a) = dimension (owner a)
   \<Longrightarrow> \<forall>c\<in>set calls. random_call_wf (owner a) c
   \<Longrightarrow> agree_on (A \<union> (\<Union>c\<in>set calls. sampled (owner a) c))
         (random_calls_run rnd rand_r calls a) (random_calls_run rnd rand_r calls b)"
proof (induction calls arbitrary: A a b)
  case Nil
  then show ?case by (simp add: random_calls_run_def)
next
  case (Cons c calls)
  let ?a = "random_call_run rnd rand_r c a" and ?b = "random_call_run rnd rand_r c b"
  have 1: "agree_on (A \<union> sampled (owner a) c) ?a ?b"
    using Cons.prems by (intro random_call_run_agree) simp_all
  have 2: "length (params ?a) = dimension (owner ?a)"
    using Cons.prems(2) by (simp add: random_call_run_fields)
  have 3: "\<forall>c\<in>set calls. random_call_wf (owner ?a) c"
    using Cons.prems(3) by (simp add: random_call_run_fields)
  from Cons.IH [OF 1 2 3]
  show ?case
    by (simp add: random_calls_run_def random_call_run_fields Un_assoc)
qed

text \<open>A sample lies within finite bounds whose width does not overflow.\<close>

lemma rounding_dyadic:
  "ieee_rounding rnd \<Longrightarrow> \<bar>n\<bar> \<le> 2 ^ 53 \<Longrightarrow> k \<le> 1022
   \<Longrightarrow> rnd (real_of_int n / 2 ^ k) = Finite (real_of_int n / 2 ^ k)"
  by (simp add: ieee_rounding_def)

lemma rounding_zero: "ieee_rounding rnd \<Longrightarrow> rnd 0 = Finite 0"
  using rounding_dyadic [of rnd 0 0] by simp

lemma rounding_DBL_MIN: "ieee_rounding rnd \<Longrightarrow> rnd (1 / 2 ^ 1022) = Finite (1 / 2 ^ 1022)"
  using rounding_dyadic [of rnd 1 1022] by simp

lemma rounding_result_double: "ieee_rounding rnd \<Longrightarrow> rnd x = Finite y \<Longrightarrow> rnd y = Finite y"
  unfolding ieee_rounding_def by blast

lemma rounding_error:
  "ieee_rounding rnd \<Longrightarrow> rnd x = Finite y \<Longrightarrow> 1 / 2 ^ 1022 \<le> \<bar>x\<bar> \<Longrightarrow> \<bar>y - x\<bar> \<le> \<bar>x\<bar> / 2 ^ 53"
  unfolding ieee_rounding_def by blast

lemma rounding_small_difference:
  "ieee_rounding rnd \<Longrightarrow> rnd a = Finite a \<Longrightarrow> rnd b = Finite b \<Longrightarrow> \<bar>b - a\<bar> \<le> 1 / 2 ^ 1022
   \<Longrightarrow> rnd (b - a) = Finite (b - a)"
  unfolding ieee_rounding_def by blast

lemma unit_sample_value:
  assumes r: "ieee_rounding rnd" and n: "0 \<le> n" "n \<le> RAND_MAX"
  shows "unit_sample rnd n = Finite (real_of_int n / 2 ^ 31)"
    and "0 \<le> real_of_int n / 2 ^ 31" and "real_of_int n / 2 ^ 31 \<le> 1 - 1 / 2 ^ 31"
proof -
  have "\<bar>n\<bar> \<le> 2 ^ 53" using n by (simp add: RAND_MAX_def)
  from rounding_dyadic [OF r this, of 31]
  show "unit_sample rnd n = Finite (real_of_int n / 2 ^ 31)"
    by (simp add: unit_sample_def RAND_MAX_def)
  show "0 \<le> real_of_int n / 2 ^ 31" using n by simp
  have "real_of_int n \<le> 2 ^ 31 - 1" using n by (simp add: RAND_MAX_def)
  then show "real_of_int n / 2 ^ 31 \<le> 1 - 1 / 2 ^ 31"
    by (simp add: field_simps)
qed

lemma scale_up: "(x::real) + x / c = x * (1 + 1 / c)"
  by (simp add: distrib_left)

lemma slack:
  "(1 + 1 / 2 ^ 53) * (1 - 1 / 2 ^ 31) * (1 + 1 / 2 ^ 53) \<le> (1::real)"
  by simp

lemma scaled_sample_le_width:
  assumes r: "ieee_rounding rnd"
    and lo: "rnd lo = Finite lo" and hi: "rnd hi = Finite hi" and le: "lo \<le> hi"
    and w: "rnd (hi - lo) = Finite w"
    and t: "0 \<le> t" "t \<le> 1 - 1 / 2 ^ 31"
  shows "\<exists>p. rnd (w * t) = Finite p \<and> 0 \<le> p \<and> p \<le> hi - lo"
proof -
  let ?D = "hi - lo"
  have D0: "0 \<le> ?D" using le by simp
  have w0: "0 \<le> w"
    using rounding_mono [OF r D0] rounding_zero [OF r] w by simp
  have ww: "rnd w = Finite w" by (rule rounding_result_double [OF r w])
  have t1: "t \<le> 1" using t(2) by (rule order_trans) simp
  have "0 \<le> w * t" and "w * t \<le> w"
    using w0 t(1) t1 by (simp_all add: mult_left_le)
  from rounding_between [OF r rounding_zero [OF r] ww this]
  obtain p where p: "rnd (w * t) = Finite p" "0 \<le> p" "p \<le> w" by blast
  have "p \<le> ?D"
  proof (cases "?D \<le> 1 / 2 ^ 1022")
    case True
    then have "\<bar>hi - lo\<bar> \<le> 1 / 2 ^ 1022" using D0 by simp
    from rounding_small_difference [OF r lo hi this] w have "w = ?D" by simp
    then show ?thesis using p(3) by simp
  next
    case False
    then have big: "1 / 2 ^ 1022 \<le> \<bar>?D\<bar>" by simp
    from rounding_error [OF r w big] D0 have "\<bar>w - ?D\<bar> \<le> ?D / 2 ^ 53"
      by simp
    then have "w \<le> ?D + ?D / 2 ^ 53" by linarith
    also have "\<dots> = ?D * (1 + 1 / 2 ^ 53)" by (rule scale_up)
    finally have wD: "w \<le> ?D * (1 + 1 / 2 ^ 53)" .
    have x: "w * t \<le> ?D * (1 + 1 / 2 ^ 53) * (1 - 1 / 2 ^ 31)"
      using wD t w0 by (intro mult_mono) simp_all
    show ?thesis
    proof (cases "1 / 2 ^ 1022 \<le> w * t")
      case True
      then have "1 / 2 ^ 1022 \<le> \<bar>w * t\<bar>" by simp
      from rounding_error [OF r p(1) this] \<open>0 \<le> w * t\<close>
      have "\<bar>p - w * t\<bar> \<le> w * t / 2 ^ 53"
        by simp
      then have "p \<le> w * t + w * t / 2 ^ 53" by linarith
      also have "\<dots> = w * t * (1 + 1 / 2 ^ 53)" by (rule scale_up)
      also have "\<dots> \<le> ?D * (1 + 1 / 2 ^ 53) * (1 - 1 / 2 ^ 31) * (1 + 1 / 2 ^ 53)"
        using x by (intro mult_right_mono) simp_all
      also have "\<dots> = ?D * ((1 + 1 / 2 ^ 53) * (1 - 1 / 2 ^ 31) * (1 + 1 / 2 ^ 53))"
        by (simp only: mult.assoc)
      also have "\<dots> \<le> ?D * 1"
        using D0 slack by (intro mult_left_mono)
      finally show ?thesis by simp
    next
      case False
      then have "w * t \<le> 1 / 2 ^ 1022" by simp
      from rounding_mono [OF r this] p(1) rounding_DBL_MIN [OF r]
      have "p \<le> 1 / 2 ^ 1022" by simp
      then show ?thesis using \<open>\<not> ?D \<le> 1 / 2 ^ 1022\<close> by simp
    qed
  qed
  then show ?thesis using p by blast
qed

lemma sample_within:
  assumes r: "ieee_rounding rnd"
    and lo: "rnd lo = Finite lo" and hi: "rnd hi = Finite hi" and le: "lo \<le> hi"
    and w: "rnd (hi - lo) = Finite w"
    and n: "0 \<le> n" "n \<le> RAND_MAX"
  shows "\<exists>v. dadd rnd (dmul rnd (dsub rnd (Finite hi) (Finite lo)) (unit_sample rnd n)) (Finite lo)
               = Finite v \<and> lo \<le> v \<and> v \<le> hi"
proof -
  note u = unit_sample_value [OF r n]
  obtain p where p: "rnd (w * (real_of_int n / 2 ^ 31)) = Finite p" "0 \<le> p" "p \<le> hi - lo"
    using scaled_sample_le_width [OF r lo hi le w u(2,3)] by blast
  have "lo \<le> p + lo" and "p + lo \<le> hi" using p(2,3) by simp_all
  from rounding_between [OF r lo hi this]
  obtain v where "rnd (p + lo) = Finite v" "lo \<le> v" "v \<le> hi" by blast
  then show ?thesis
    using w p(1) u(1) by (simp add: dsub_def)
qed

lemma inside_bounds_not_NaN: "inside_bounds b ps j \<Longrightarrow> ps ! j \<noteq> NaN"
  by (auto simp: inside_bounds_def dle_def)

lemma within_inside:
  "dle (b ! (2 * j)) (b ! (2 * j + 1)) \<Longrightarrow> within_bounds b ps j
   \<Longrightarrow> ps ! j = NaN \<or> inside_bounds b ps j"
  by (cases "b ! (2 * j)"; cases "b ! (2 * j + 1)"; cases "ps ! j")
     (auto simp: within_bounds_def inside_bounds_def dle_def dgt_def)

lemma randomParams_step_other:
  "k \<noteq> j \<Longrightarrow> params (randomParams_step rnd rand_r b j s) ! k = params s ! k"
  by (simp add: randomParams_step_def Let_def)

lemma randomParams_step_inside:
  assumes r: "ieee_rounding rnd" and j: "j < length (params s)"
    and wf: "dle (b ! (2 * j)) (b ! (2 * j + 1))" and fw: "finite_width rnd b j"
    and rr: "\<forall>seed. 0 \<le> fst (rand_r seed) \<and> fst (rand_r seed) \<le> RAND_MAX"
  shows "inside_bounds b (params (randomParams_step rnd rand_r b j s)) j"
proof -
  from fw obtain lo hi w where b: "b ! (2 * j) = Finite lo" "b ! (2 * j + 1) = Finite hi"
    and d: "rnd lo = Finite lo" "rnd hi = Finite hi" "rnd (hi - lo) = Finite w"
    unfolding finite_width_def by blast
  have le: "lo \<le> hi" using wf b by simp
  have n: "0 \<le> fst (rand_r (randSeed s))" "fst (rand_r (randSeed s)) \<le> RAND_MAX"
    using rr by simp_all
  from sample_within [OF r d(1,2) le d(3) n]
  obtain v where "dadd rnd (dmul rnd (dsub rnd (Finite hi) (Finite lo))
                    (unit_sample rnd (fst (rand_r (randSeed s))))) (Finite lo) = Finite v"
    "lo \<le> v" "v \<le> hi" by blast
  then show ?thesis
    using j b by (simp add: inside_bounds_def randomParams_step_def Let_def)
qed

lemma random_fold_untouched:
  "k \<notin> set js \<Longrightarrow> params (fold (randomParams_step rnd rand_r b) js s) ! k = params s ! k"
  by (induction js arbitrary: s) (simp_all add: randomParams_step_other)

lemma random_fold_inside:
  assumes r: "ieee_rounding rnd"
    and rr: "\<forall>seed. 0 \<le> fst (rand_r seed) \<and> fst (rand_r seed) \<le> RAND_MAX"
  shows "\<forall>j\<in>set js. j < length (params s) \<and> dle (b ! (2 * j)) (b ! (2 * j + 1))
                    \<and> finite_width rnd b j
   \<Longrightarrow> \<forall>j\<in>set js. inside_bounds b (params (fold (randomParams_step rnd rand_r b) js s)) j"
proof (induction js arbitrary: s)
  case Nil
  then show ?case by simp
next
  case (Cons a js)
  let ?s = "randomParams_step rnd rand_r b a s"
  have a: "inside_bounds b (params ?s) a"
    using Cons.prems by (intro randomParams_step_inside [OF r _ _ _ rr]) simp_all
  have pre: "\<forall>j\<in>set js. j < length (params ?s) \<and> dle (b ! (2 * j)) (b ! (2 * j + 1))
                          \<and> finite_width rnd b j"
    using Cons.prems by (simp add: randomParams_step_fields)
  note ih = Cons.IH [OF pre]
  have "inside_bounds b (params (fold (randomParams_step rnd rand_r b) js ?s)) a"
  proof (cases "a \<in> set js")
    case True
    then show ?thesis using ih by blast
  next
    case False
    then show ?thesis
      using a by (simp add: inside_bounds_def random_fold_untouched)
  qed
  then show ?case using ih by simp
qed

text \<open>After the clamp a component lies within well-formed bounds unless it is NaN.\<close>

lemma enforceBounds_step_inside:
  assumes "j < length (params s)" and "dle (b ! (2 * j)) (b ! (2 * j + 1))"
    and "params s ! j \<noteq> NaN"
  shows "inside_bounds b (params (enforceBounds_step b j s)) j"
proof -
  have "within_bounds b (params (enforceBounds_step b j s)) j"
    using assms(1,2) by (rule enforceBounds_step_establish)
  from within_inside [OF assms(2) this]
  have "params (enforceBounds_step b j s) ! j = NaN \<or> ?thesis" .
  moreover have "params (enforceBounds_step b j s) ! j \<noteq> NaN"
    using assms by (auto simp: enforceBounds_step_def Let_def dle_def)
  ultimately show ?thesis by blast
qed

lemma enforce_fold_inside:
  "\<forall>j\<in>set js. j < length (params s) \<and> dle (b ! (2 * j)) (b ! (2 * j + 1)) \<and> params s ! j \<noteq> NaN
   \<Longrightarrow> \<forall>j\<in>set js. inside_bounds b (params (fold (enforceBounds_step b) js s)) j"
proof (induction js arbitrary: s)
  case Nil
  then show ?case by simp
next
  case (Cons a js)
  let ?s = "enforceBounds_step b a s"
  have a: "inside_bounds b (params ?s) a"
    using Cons.prems by (intro enforceBounds_step_inside) simp_all
  have pre: "\<forall>j\<in>set js. j < length (params ?s) \<and> dle (b ! (2 * j)) (b ! (2 * j + 1))
                          \<and> params ?s ! j \<noteq> NaN"
  proof
    fix j assume j: "j \<in> set js"
    have "params ?s ! j \<noteq> NaN"
    proof (cases "j = a")
      case True
      then show ?thesis using inside_bounds_not_NaN [OF a] by simp
    next
      case False
      then show ?thesis using Cons.prems j by (simp add: enforceBounds_step_other)
    qed
    then show "j < length (params ?s) \<and> dle (b ! (2 * j)) (b ! (2 * j + 1)) \<and> params ?s ! j \<noteq> NaN"
      using Cons.prems j by (simp add: enforceBounds_step_fields)
  qed
  note ih = Cons.IH [OF pre]
  have "inside_bounds b (params (fold (enforceBounds_step b) js ?s)) a"
  proof (cases "a \<in> set js")
    case True
    then show ?thesis using ih by blast
  next
    case False
    then show ?thesis
      using a by (simp add: inside_bounds_def enforce_fold_untouched)
  qed
  then show ?case using ih by simp
qed

text \<open>A perturbed value is not NaN when the operands are finite.\<close>

lemma rounding_neg_double:
  assumes r: "ieee_rounding rnd" and "rnd q = Finite q"
  shows "rnd (- q) = Finite (- q)"
proof -
  have "rnd (- q) = dneg (rnd q)" using r unfolding ieee_rounding_def by blast
  then show ?thesis using assms(2) by simp
qed

lemma centred_sample_value:
  assumes r: "ieee_rounding rnd" and n: "0 \<le> n" "n \<le> RAND_MAX"
  shows "\<exists>c. dsub rnd (dmul rnd (Finite 2) (unit_sample rnd n)) (Finite 1) = Finite c
             \<and> - 1 \<le> c \<and> c \<le> 1"
proof -
  note u = unit_sample_value [OF r n]
  have "\<bar>n\<bar> \<le> 2 ^ 53" using n by (simp add: RAND_MAX_def)
  from rounding_dyadic [OF r this, of 30]
  have two: "rnd (2 * (real_of_int n / 2 ^ 31)) = Finite (2 * (real_of_int n / 2 ^ 31))"
    by simp
  have e: "rnd (real_of_int (n - 2 ^ 30) / 2 ^ 30) = Finite (real_of_int (n - 2 ^ 30) / 2 ^ 30)"
    by (rule rounding_dyadic [OF r]) (use n in \<open>simp_all add: RAND_MAX_def\<close>)
  have eq: "2 * (real_of_int n / 2 ^ 31) + - 1 = real_of_int (n - 2 ^ 30) / 2 ^ 30"
    by (simp add: field_simps)
  have c: "rnd (2 * (real_of_int n / 2 ^ 31) + - 1)
                      = Finite (2 * (real_of_int n / 2 ^ 31) + - 1)"
    unfolding eq by (rule e)
  have "- 1 \<le> 2 * (real_of_int n / 2 ^ 31) + - 1" and "2 * (real_of_int n / 2 ^ 31) + - 1 \<le> 1"
    using u(2,3) by simp_all
  then show ?thesis
    using u(1) two c by (simp add: dsub_def)
qed

lemma perturbParams_step_not_NaN:
  assumes r: "ieee_rounding rnd" and i: "i < length (params s)"
    and x: "params s ! i = Finite x"
    and q: "dmul rnd factor (dsub rnd (b ! (2 * i + 1)) (b ! (2 * i))) = Finite q"
    and rr: "\<forall>seed. 0 \<le> fst (rand_r seed) \<and> fst (rand_r seed) \<le> RAND_MAX"
  shows "params (perturbParams_step rnd rand_r factor b i s) ! i \<noteq> NaN"
proof -
  have n: "0 \<le> fst (rand_r (randSeed s))" "fst (rand_r (randSeed s)) \<le> RAND_MAX"
    using rr by simp_all
  from centred_sample_value [OF r n]
  obtain c where c: "dsub rnd (dmul rnd (Finite 2) (unit_sample rnd (fst (rand_r (randSeed s)))))
                       (Finite 1) = Finite c" "- 1 \<le> c" "c \<le> 1" by blast
  have qq: "rnd q = Finite q"
  proof -
    have "\<exists>y. rnd y = Finite q"
      using q
      by (cases factor; cases "dsub rnd (b ! (2 * i + 1)) (b ! (2 * i))")
         (auto split: if_splits)
    then show ?thesis using rounding_result_double [OF r] by blast
  qed
  have "\<bar>q * c\<bar> \<le> \<bar>q\<bar>"
    using c(2,3) by (simp add: abs_mult mult_left_le abs_le_iff)
  then have lohi: "- \<bar>q\<bar> \<le> q * c" "q * c \<le> \<bar>q\<bar>" by linarith+
  have aq: "rnd \<bar>q\<bar> = Finite \<bar>q\<bar>" and naq: "rnd (- \<bar>q\<bar>) = Finite (- \<bar>q\<bar>)"
    using qq rounding_neg_double [OF r qq] by (cases "0 \<le> q"; simp add: abs_if)+
  from rounding_between [OF r naq aq lohi]
  obtain d where d: "rnd (q * c) = Finite d" by blast
  have "params (perturbParams_step rnd rand_r factor b i s) ! i = rnd (x + d)"
    using i x q c(1) d by (simp add: perturbParams_step_def Let_def)
  then show ?thesis using rounding_not_NaN [OF r] by simp
qed

lemma perturbParams_step_other:
  "k \<noteq> j \<Longrightarrow> params (perturbParams_step rnd rand_r f b j s) ! k = params s ! k"
  by (simp add: perturbParams_step_def Let_def)

lemma perturb_fold_untouched:
  "k \<notin> set js \<Longrightarrow> params (fold (perturbParams_step rnd rand_r f b) js s) ! k = params s ! k"
  by (induction js arbitrary: s) (simp_all add: perturbParams_step_other)

lemma perturb_fold_not_NaN:
  assumes r: "ieee_rounding rnd"
    and rr: "\<forall>seed. 0 \<le> fst (rand_r seed) \<and> fst (rand_r seed) \<le> RAND_MAX"
  shows "distinct js \<Longrightarrow>
    \<forall>j\<in>set js. j < length (params s) \<and> (\<exists>x. params s ! j = Finite x)
       \<and> (\<exists>q. dmul rnd f (dsub rnd (b ! (2 * j + 1)) (b ! (2 * j))) = Finite q)
    \<Longrightarrow> \<forall>j\<in>set js. params (fold (perturbParams_step rnd rand_r f b) js s) ! j \<noteq> NaN"
proof (induction js arbitrary: s)
  case Nil
  then show ?case by simp
next
  case (Cons a js)
  let ?s = "perturbParams_step rnd rand_r f b a s"
  obtain x q where "a < length (params s)" "params s ! a = Finite x"
    "dmul rnd f (dsub rnd (b ! (2 * a + 1)) (b ! (2 * a))) = Finite q"
    using Cons.prems(2) by auto
  from perturbParams_step_not_NaN [OF r this rr]
  have a: "params ?s ! a \<noteq> NaN" .
  have notin: "a \<notin> set js" and d: "distinct js" using Cons.prems(1) by simp_all
  have pre: "\<forall>j\<in>set js. j < length (params ?s) \<and> (\<exists>x. params ?s ! j = Finite x)
       \<and> (\<exists>q. dmul rnd f (dsub rnd (b ! (2 * j + 1)) (b ! (2 * j))) = Finite q)"
  proof
    fix j assume j: "j \<in> set js"
    then have "j \<noteq> a" using notin by blast
    then show "j < length (params ?s) \<and> (\<exists>x. params ?s ! j = Finite x)
       \<and> (\<exists>q. dmul rnd f (dsub rnd (b ! (2 * j + 1)) (b ! (2 * j))) = Finite q)"
      using Cons.prems(2) j by (simp add: perturbParams_step_other perturbParams_step_fields)
  qed
  note ih = Cons.IH [OF d pre]
  have "params (fold (perturbParams_step rnd rand_r f b) js ?s) ! a \<noteq> NaN"
    using a notin by (simp add: perturb_fold_untouched)
  then show ?case using ih by simp
qed

lemma perturbParams_within_or_NaN:
  assumes "state_wf s" and "bounds_wf (owner s)" and "i < dimension (owner s)"
  shows "params (perturbParams rnd rand_r f s) ! i = NaN
       \<or> inside_bounds (stateBounds (owner s)) (params (perturbParams rnd rand_r f s)) i"
proof -
  let ?b = "stateBounds (owner s)"
  let ?s = "fold (perturbParams_step rnd rand_r f ?b) [0..<dimension (owner s)] s"
  have wf: "dle (?b ! (2 * i)) (?b ! (2 * i + 1))"
    using assms(2,3) by (simp add: bounds_wf_def)
  have "\<forall>j\<in>set [0..<dimension (owner s)].
          j < length (params ?s) \<and> dle (?b ! (2 * j)) (?b ! (2 * j + 1))"
    using assms(1,2) by (simp add: state_wf_def bounds_wf_def perturb_fold_fields)
  from enforce_fold_establish [OF this] assms(3)
  have "within_bounds ?b (params (perturbParams rnd rand_r f s)) i"
    by (simp add: perturbParams_def enforceBounds_fold getStateBounds_def getDimension_def
        perturb_fold_fields)
  from within_inside [OF wf this] show ?thesis .
qed

lemma perturbParams_inside:
  assumes r: "ieee_rounding rnd" and "state_wf s" and "bounds_wf (owner s)"
    and pf: "perturb_finite rnd f s"
    and rr: "\<forall>seed. 0 \<le> fst (rand_r seed) \<and> fst (rand_r seed) \<le> RAND_MAX"
    and "i < dimension (owner s)"
  shows "inside_bounds (stateBounds (owner s)) (params (perturbParams rnd rand_r f s)) i"
proof -
  let ?b = "stateBounds (owner s)"
  let ?s = "fold (perturbParams_step rnd rand_r f ?b) [0..<dimension (owner s)] s"
  have "\<forall>j\<in>set [0..<dimension (owner s)]. j < length (params s) \<and> (\<exists>x. params s ! j = Finite x)
       \<and> (\<exists>q. dmul rnd f (dsub rnd (?b ! (2 * j + 1)) (?b ! (2 * j))) = Finite q)"
    using assms(2) pf by (simp add: state_wf_def perturb_finite_def)
  from perturb_fold_not_NaN [OF r rr _ this]
  have nn: "\<forall>j\<in>set [0..<dimension (owner s)]. params ?s ! j \<noteq> NaN" by simp
  have "\<forall>j\<in>set [0..<dimension (owner s)].
          j < length (params ?s) \<and> dle (?b ! (2 * j)) (?b ! (2 * j + 1)) \<and> params ?s ! j \<noteq> NaN"
    using assms(2,3) nn by (simp add: state_wf_def bounds_wf_def perturb_fold_fields)
  from enforce_fold_inside [OF this] assms(6)
  show ?thesis
    by (simp add: perturbParams_def enforceBounds_fold getStateBounds_def getDimension_def
        perturb_fold_fields)
qed

lemma randomParams_inside:
  assumes r: "ieee_rounding rnd" and "state_wf s" and "bounds_wf (owner s)"
    and "finite_widths rnd (owner s)"
    and rr: "\<forall>seed. 0 \<le> fst (rand_r seed) \<and> fst (rand_r seed) \<le> RAND_MAX"
    and "i < dimension (owner s)"
  shows "inside_bounds (stateBounds (owner s)) (params (randomParams rnd rand_r s)) i"
proof -
  let ?b = "stateBounds (owner s)"
  have "\<forall>j\<in>set [0..<dimension (owner s)].
          j < length (params s) \<and> dle (?b ! (2 * j)) (?b ! (2 * j + 1)) \<and> finite_width rnd ?b j"
    using assms(2,3,4) by (simp add: state_wf_def bounds_wf_def finite_widths_def)
  from random_fold_inside [OF r rr this] assms(6)
  show ?thesis by (simp add: randomParams_fold)
qed

lemma randomParamsGroup_inside:
  assumes r: "ieee_rounding rnd" and "state_wf s" and "bounds_wf (owner s)"
    and "finite_widths rnd (owner s)"
    and rr: "\<forall>seed. 0 \<le> fst (rand_r seed) \<and> fst (rand_r seed) \<le> RAND_MAX"
    and g: "group_wf (owner s) g" and "j \<in> set (group_state_index g)"
  shows "inside_bounds (stateBounds (owner s)) (params (randomParamsGroup rnd rand_r g s)) j"
proof -
  let ?b = "stateBounds (owner s)"
  have gd: "group_dimension g = length (group_state_index g)"
    using g by (simp add: group_wf_def)
  have "\<forall>j\<in>set (group_state_index g).
          j < length (params s) \<and> dle (?b ! (2 * j)) (?b ! (2 * j + 1)) \<and> finite_width rnd ?b j"
    using assms(2,3,4) g by (simp add: state_wf_def bounds_wf_def finite_widths_def group_wf_def)
  from random_fold_inside [OF r rr this] assms(7)
  show ?thesis by (simp add: randomParamsGroup_fold [OF gd])
qed

lemma random_calls_run_fields:
  "owner (random_calls_run rnd rand_r calls s) = owner s"
  "length (params (random_calls_run rnd rand_r calls s)) = length (params s)"
  unfolding random_calls_run_def
  by (induction calls arbitrary: s) (simp_all add: random_call_run_fields)

lemma exact_rounding_moderate: "\<bar>x\<bar> \<le> 2 ^ 53 \<Longrightarrow> exact_rounding x = Finite x"
  using DBL_MAX_big by (intro exact_rounding_small) linarith+

lemmas sampling_eval =
  random_calls_run_def randomParams_def randomParams_step_def randomParamsGroup_def
  randomParamsGroup_step_def perturbParams_def perturbParams_step_def enforceBounds_def
  enforceBounds_step_def unit_sample_def RAND_MAX_def dsub_def dgt_def getDimension_def
  getStateBounds_def example_state_def example_model_def example_group_def Let_def
  exact_rounding_moderate

section \<open>Claims\<close>

text \<open>
  C4. For a state whose parameter buffer has the model's dimension,
  \<^verbatim>\<open>checkBounds()\<close> is true if and only if \<^verbatim>\<open>enforceBounds()\<close> leaves the
  parameter buffer unchanged.
\<close>

theorem checkBounds_iff_enforceBounds_fixpoint:
  assumes "length (params s) = dimension (owner s)"
  shows "checkBounds s \<longleftrightarrow> params (enforceBounds s) = params s"
proof
  assume "checkBounds s"
  then have "\<forall>j\<in>set [0..<dimension (owner s)]. within_bounds (stateBounds (owner s)) (params s) j"
    by (simp add: checkBounds_def getStateBounds_def getDimension_def checkBounds_loop_iff)
  then show "params (enforceBounds s) = params s"
    by (simp only: enforceBounds_fold enforce_fold_id)
next
  assume same: "params (enforceBounds s) = params s"
  have "within_bounds (stateBounds (owner s)) (params s) j" if "j < dimension (owner s)" for j
  proof (rule ccontr)
    assume "\<not> within_bounds (stateBounds (owner s)) (params s) j"
    then have "params (enforceBounds s) ! j \<noteq> params s ! j"
      using that assms by (simp only: enforceBounds_fold) (rule enforce_fold_changes, simp_all)
    then show False using same by simp
  qed
  then show "checkBounds s"
    by (simp add: checkBounds_def getStateBounds_def getDimension_def checkBounds_loop_iff)
qed

theorem checkBounds_iff_enforceBounds_fixpoint_witness:
  "length (params (example_state (Finite (-1)) (Finite 1) (Finite 3) True))
     = dimension (owner (example_state (Finite (-1)) (Finite 1) (Finite 3) True))
   \<and> \<not> checkBounds (example_state (Finite (-1)) (Finite 1) (Finite 3) True)
   \<and> params (enforceBounds (example_state (Finite (-1)) (Finite 1) (Finite 3) True)) = [Finite 1]
   \<and> checkBounds (example_state (Finite (-1)) (Finite 1) NaN True)
   \<and> params (enforceBounds (example_state (Finite (-1)) (Finite 1) NaN True)) = [NaN]"
  using checkBounds_iff_enforceBounds_fixpoint [of "example_state (Finite (-1)) (Finite 1) (Finite 3) True"]
    checkBounds_iff_enforceBounds_fixpoint [of "example_state (Finite (-1)) (Finite 1) NaN True"]
  by (simp add: enforceBounds_def enforceBounds_step_def getStateBounds_def getDimension_def
      example_state_def example_model_def dgt_def)

text \<open>
  C3 (amended). For a state whose buffers have the model's dimension and a model with
  well-formed bounds (minimum at most maximum for every component),
  \<^verbatim>\<open>enforceBounds\<close> is idempotent, and so is \<^verbatim>\<open>enforceBoundsGroup\<close> for every
  group of the model.
\<close>

theorem enforceBounds_idempotent:
  assumes "state_wf s" and "bounds_wf (owner s)"
  shows "enforceBounds (enforceBounds s) = enforceBounds s
       \<and> (\<forall>g. group_wf (owner s) g \<longrightarrow>
             enforceBoundsGroup g (enforceBoundsGroup g s) = enforceBoundsGroup g s)"
proof (intro conjI allI impI)
  let ?b = "stateBounds (owner s)"
  have "\<forall>j\<in>set [0..<dimension (owner s)].
          j < length (params s) \<and> dle (?b ! (2 * j)) (?b ! (2 * j + 1))"
    using assms by (simp add: bounds_wf_def state_wf_def)
  from enforce_fold_idem [OF this]
  show "enforceBounds (enforceBounds s) = enforceBounds s"
    by (simp add: enforceBounds_fold enforce_fold_fields)
next
  fix g
  assume g: "group_wf (owner s) g"
  let ?b = "stateBounds (owner s)"
  have "\<forall>j\<in>set (group_state_index g).
          j < length (params s) \<and> dle (?b ! (2 * j)) (?b ! (2 * j + 1))"
    using assms g by (simp add: bounds_wf_def group_wf_def state_wf_def)
  from enforce_fold_idem [OF this]
  show "enforceBoundsGroup g (enforceBoundsGroup g s) = enforceBoundsGroup g s"
    using g by (simp add: enforceBoundsGroup_fold enforce_fold_fields map_nth group_wf_def)
qed

theorem enforceBounds_idempotent_witness:
  "state_wf (example_state (Finite (-1)) (Finite 1) (Finite 3) True)
   \<and> bounds_wf (owner (example_state (Finite (-1)) (Finite 1) (Finite 3) True))
   \<and> group_wf (owner (example_state (Finite (-1)) (Finite 1) (Finite 3) True)) example_group
   \<and> params (enforceBounds (example_state (Finite (-1)) (Finite 1) (Finite 3) True)) = [Finite 1]
   \<and> enforceBounds (enforceBounds (example_state (Finite (-1)) (Finite 1) (Finite 3) True))
       = enforceBounds (example_state (Finite (-1)) (Finite 1) (Finite 3) True)
   \<and> enforceBoundsGroup example_group
        (enforceBoundsGroup example_group (example_state (Finite (-1)) (Finite 1) (Finite 3) True))
       = enforceBoundsGroup example_group (example_state (Finite (-1)) (Finite 1) (Finite 3) True)"
proof -
  let ?s = "example_state (Finite (-1)) (Finite 1) (Finite 3) True"
  have a: "state_wf ?s"
    by (simp add: state_wf_def example_state_def example_model_def)
  have b: "bounds_wf (owner ?s)"
    by (simp add: bounds_wf_def example_state_def example_model_def)
  have c: "group_wf (owner ?s) example_group"
    by (simp add: group_wf_def example_state_def example_model_def example_group_def)
  have d: "params (enforceBounds ?s) = [Finite 1]"
    by (simp add: enforceBounds_def enforceBounds_step_def getStateBounds_def getDimension_def
        example_state_def example_model_def dgt_def)
  show ?thesis
    using a b c d enforceBounds_idempotent [OF a b] by blast
qed

text \<open>
  C3 as stated (for every state) fails where a component's minimum exceeds its maximum:
  with the bounds (5, 1) and the value 3 the first call gives 1 and the second gives 5.
\<close>

theorem enforceBounds_not_idempotent_counterexample:
  "enforceBounds (enforceBounds (example_state (Finite 5) (Finite 1) (Finite 3) True))
     \<noteq> enforceBounds (example_state (Finite 5) (Finite 1) (Finite 3) True)"
  by (simp add: enforceBounds_def enforceBounds_step_def getStateBounds_def getDimension_def
      example_state_def example_model_def dgt_def)

text \<open>
  C2 (amended). For a state whose buffers have the model's dimension and a model with
  well-formed bounds whose finite bounds can be doubled without overflow, after
  \<^verbatim>\<open>defaultParams()\<close> every component lies within its bounds; it is 0 when 0 lies
  within the bounds and otherwise the midpoint as double arithmetic computes it, the sum
  of the bounds rounded and then halved and rounded.
\<close>

theorem defaultParams_within_bounds:
  assumes "ieee_rounding rnd" and "state_wf s" and "bounds_wf (owner s)"
    and "no_midpoint_overflow rnd (owner s)" and "i < dimension (owner s)"
  shows "dle (stateBounds (owner s) ! (2 * i)) (params (defaultParams rnd s) ! i)
       \<and> dle (params (defaultParams rnd s) ! i) (stateBounds (owner s) ! (2 * i + 1))
       \<and> params (defaultParams rnd s) ! i =
           (if dle (stateBounds (owner s) ! (2 * i)) (Finite 0)
               \<and> dle (Finite 0) (stateBounds (owner s) ! (2 * i + 1)) then Finite 0
            else ddiv rnd (dadd rnd (stateBounds (owner s) ! (2 * i))
                                    (stateBounds (owner s) ! (2 * i + 1))) (Finite 2))"
proof -
  let ?lo = "stateBounds (owner s) ! (2 * i)" and ?hi = "stateBounds (owner s) ! (2 * i + 1)"
  have wf: "dle ?lo ?hi"
    using assms(3,5) by (simp add: bounds_wf_def)
  have len: "length (params s) = dimension (owner s)"
    using assms(2) by (simp add: state_wf_def)
  have lo: "\<forall>x. ?lo = Finite x \<longrightarrow> rnd x = Finite x \<and> rnd (2 * x) = Finite (2 * x)"
    and hi: "\<forall>x. ?hi = Finite x \<longrightarrow> rnd x = Finite x \<and> rnd (2 * x) = Finite (2 * x)"
  proof -
    have "2 * i < 2 * dimension (owner s)" and "2 * i + 1 < 2 * dimension (owner s)"
      using assms(5) by simp_all
    then show "\<forall>x. ?lo = Finite x \<longrightarrow> rnd x = Finite x \<and> rnd (2 * x) = Finite (2 * x)"
      and "\<forall>x. ?hi = Finite x \<longrightarrow> rnd x = Finite x \<and> rnd (2 * x) = Finite (2 * x)"
      using assms(4) unfolding no_midpoint_overflow_def by blast+
  qed
  note v = defaultParams_nth [OF assms(5) len, of rnd]
  show ?thesis
  proof (cases "dle ?lo (Finite 0) \<and> dge ?hi (Finite 0)")
    case True
    then show ?thesis using v by (simp add: dge_def)
  next
    case False
    from midpoint_within [OF assms(1) wf False lo hi] False v
    show ?thesis by (simp add: dge_def)
  qed
qed

theorem defaultParams_within_bounds_witness:
  "ieee_rounding exact_rounding
   \<and> state_wf (example_state (Finite 1) (Finite 3) (Finite 7) False)
   \<and> bounds_wf (owner (example_state (Finite 1) (Finite 3) (Finite 7) False))
   \<and> no_midpoint_overflow exact_rounding (owner (example_state (Finite 1) (Finite 3) (Finite 7) False))
   \<and> params (defaultParams exact_rounding (example_state (Finite 1) (Finite 3) (Finite 7) False)) ! 0
       = Finite 2
   \<and> dle (Finite 1)
        (params (defaultParams exact_rounding (example_state (Finite 1) (Finite 3) (Finite 7) False)) ! 0)
   \<and> dle (params (defaultParams exact_rounding (example_state (Finite 1) (Finite 3) (Finite 7) False)) ! 0)
        (Finite 3)"
proof -
  let ?s = "example_state (Finite 1) (Finite 3) (Finite 7) False"
  have a: "state_wf ?s"
    by (simp add: state_wf_def example_state_def example_model_def)
  have b: "bounds_wf (owner ?s)"
    by (simp add: bounds_wf_def example_state_def example_model_def)
  have c: "no_midpoint_overflow exact_rounding (owner ?s)"
    using DBL_MAX_big
    by (auto simp: no_midpoint_overflow_def example_state_def example_model_def
        exact_rounding_def less_Suc_eq numeral_2_eq_2)
  have d: "0 < dimension (owner ?s)"
    by (simp add: example_state_def example_model_def)
  have e: "stateBounds (owner ?s) = [Finite 1, Finite 3]"
    by (simp add: example_state_def example_model_def)
  show ?thesis
    using ieee_rounding_exact a b c
      defaultParams_within_bounds [OF ieee_rounding_exact a b c d]
    by (simp add: e dle_def)
qed

text \<open>
  C2 as stated fails where the sum of the bounds overflows: the bounds
  \<open>(2 ^ 1023, 2 ^ 1023)\<close> are well-formed, their sum \<open>2 ^ 1024\<close> is beyond the largest
  double, and \<^verbatim>\<open>defaultParams()\<close> stores the infinity, which exceeds the maximum.
\<close>

theorem defaultParams_overflow_counterexample:
  "state_wf (example_state (Finite (2 ^ 1023)) (Finite (2 ^ 1023)) (Finite 0) False)
   \<and> bounds_wf (owner (example_state (Finite (2 ^ 1023)) (Finite (2 ^ 1023)) (Finite 0) False))
   \<and> params (defaultParams exact_rounding
               (example_state (Finite (2 ^ 1023)) (Finite (2 ^ 1023)) (Finite 0) False)) = [PInf]
   \<and> \<not> dle PInf (Finite (2 ^ 1023))"
proof -
  have big: "(2::real) ^ 1023 + 2 ^ 1023 > DBL_MAX"
  proof -
    have "(2 - 1 / 2 ^ 52) * (2::real) ^ 1023 < 2 * 2 ^ 1023"
      by (intro mult_strict_right_mono) simp_all
    then show ?thesis by (simp add: DBL_MAX_def)
  qed
  have pos: "\<not> (2::real) ^ 1023 \<le> 0"
    by (simp add: not_le)
  show ?thesis
    using big pos
    by (simp add: state_wf_def bounds_wf_def defaultParams_def defaultParams_step_def
        getDimension_def getStateBounds_def example_state_def example_model_def Let_def
        exact_rounding_def dle_def dge_def del: power_numeral)
qed

text \<open>
  C6. \<^verbatim>\<open>defaultParamsGroup\<close> does not mark the components of the group as seen,
  where \<^verbatim>\<open>defaultParams\<close> does: on a freshly constructed state of the example model
  (bounds (1, 3)), \<^verbatim>\<open>defaultParamsGroup("arm")\<close> writes the midpoint 2 and leaves
  the component unseen, so \<^verbatim>\<open>seenAllGroup("arm")\<close> is false afterwards.
\<close>

theorem defaultParamsGroup_leaves_unseen:
  "defaultParamsGroup_name exact_rounding ''arm''
     (KinematicState_new exact_rounding 0 (\<lambda>_. Finite 7) (example_model (Finite 1) (Finite 3)))
     = Inr \<lparr>owner = example_model (Finite 1) (Finite 3), randSeed = 0, params = [Finite 2],
            updated = [False]\<rparr>
   \<and> seenAllGroup_name ''arm''
        \<lparr>owner = example_model (Finite 1) (Finite 3), randSeed = 0, params = [Finite 2],
         updated = [False]\<rparr> = Inr False"
  by (simp add: fresh_example_state dle_def dge_def)
     (simp add: defaultParamsGroup_name_def defaultParamsGroup_def defaultParamsGroup_step_def
      seenAllGroup_name_def seenAllGroup_def getGroup_def getStateBounds_def
      example_model_def example_group_def Let_def UINT_MAX_def dle_def dge_def)

text \<open>
  C7 (amended). \<^verbatim>\<open>operator==\<close> holds if and only if the two models have the same
  dimension and, for every pair of corresponding components, the difference computed in
  double arithmetic is NaN or at most \<^verbatim>\<open>DBL_MIN\<close> in absolute value; in particular a
  component that is NaN in either state never makes the states unequal.
\<close>

theorem KinematicState_eq_tolerance:
  "(KinematicState_eq rnd s rhs \<longleftrightarrow>
      dimension (owner s) = dimension (owner rhs)
      \<and> (\<forall>i<dimension (owner s).
            dsub rnd (params s ! i) (params rhs ! i) = NaN
            \<or> dle (dabs (dsub rnd (params s ! i) (params rhs ! i))) (Finite DBL_MIN)))
   \<and> (dimension (owner s) = dimension (owner rhs)
       \<and> (\<forall>i<dimension (owner s). params s ! i = NaN \<or> params rhs ! i = NaN)
       \<longrightarrow> KinematicState_eq rnd s rhs)"
  by (auto simp: KinematicState_eq_def getDimension_def eq_loop_iff Let_def)

theorem KinematicState_eq_tolerance_witness:
  "KinematicState_eq exact_rounding
     (example_state (Finite (-1)) (Finite 1) (Finite 0) True)
     (example_state (Finite (-1)) (Finite 1) (Finite DBL_MIN) True)
   \<and> \<not> KinematicState_eq exact_rounding
         (example_state (Finite (-1)) (Finite 1) (Finite 0) True)
         (example_state (Finite (-1)) (Finite 1) (Finite 1) True)
   \<and> KinematicState_eq exact_rounding
         (example_state (Finite (-1)) (Finite 1) NaN True)
         (example_state (Finite (-1)) (Finite 1) (Finite 1) True)"
proof -
  have m: "DBL_MIN \<le> DBL_MAX" "0 < DBL_MIN" "\<not> 1 \<le> DBL_MIN" "1 \<le> DBL_MAX"
    using DBL_MIN_small DBL_MIN_pos DBL_MAX_big by (simp_all add: DBL_MIN_def)
  have d: "dimension (owner (example_state lo hi v seen)) = 1"
    "params (example_state lo hi v seen) = [v]" for lo hi v seen
    by (simp_all add: example_state_def example_model_def)
  show ?thesis
    using m
      KinematicState_eq_tolerance [of exact_rounding
        "example_state (Finite (-1)) (Finite 1) (Finite 0) True"
        "example_state (Finite (-1)) (Finite 1) (Finite DBL_MIN) True"]
      KinematicState_eq_tolerance [of exact_rounding
        "example_state (Finite (-1)) (Finite 1) (Finite 0) True"
        "example_state (Finite (-1)) (Finite 1) (Finite 1) True"]
      KinematicState_eq_tolerance [of exact_rounding
        "example_state (Finite (-1)) (Finite 1) NaN True"
        "example_state (Finite (-1)) (Finite 1) (Finite 1) True"]
    by (simp add: d dsub_def exact_rounding_def)
qed

text \<open>
  C7 as stated (exact identity, no tolerance) fails: the values 0 and \<^verbatim>\<open>DBL_MIN\<close>
  are different and compare equal, and so do NaN and 1.
\<close>

theorem KinematicState_eq_not_exact_counterexample:
  "KinematicState_eq exact_rounding
     (example_state (Finite (-1)) (Finite 1) (Finite 0) True)
     (example_state (Finite (-1)) (Finite 1) (Finite DBL_MIN) True)
   \<and> params (example_state (Finite (-1)) (Finite 1) (Finite 0) True) ! 0
       \<noteq> params (example_state (Finite (-1)) (Finite 1) (Finite DBL_MIN) True) ! 0
   \<and> KinematicState_eq exact_rounding
        (example_state (Finite (-1)) (Finite 1) NaN True)
        (example_state (Finite (-1)) (Finite 1) (Finite 1) True)
   \<and> params (example_state (Finite (-1)) (Finite 1) NaN True) ! 0
       \<noteq> params (example_state (Finite (-1)) (Finite 1) (Finite 1) True) ! 0"
proof -
  have m: "DBL_MIN \<le> DBL_MAX" "0 < DBL_MIN"
    using DBL_MIN_small DBL_MIN_pos by (simp_all add: DBL_MIN_def)
  show ?thesis
    using m
    by (simp add: KinematicState_eq_def getDimension_def example_state_def example_model_def
        dsub_def exact_rounding_def dgt_def)
qed

text \<open>
  C5. On a state whose buffers have the model's dimension, \<^verbatim>\<open>setParams\<close>,
  \<^verbatim>\<open>setParamsGroup\<close> (for a group of the model) and \<^verbatim>\<open>setParamsJoint\<close> (for a
  registered joint of the model) write the supplied values into the addressed components,
  mark each of them seen, return true if and only if some addressed component held a
  different value (by \<^verbatim>\<open>!=\<close>) or was unseen before, and leave the state as it was
  when they return false.
\<close>

theorem setParams_family_contract:
  assumes "state_wf s"
  shows
    "((\<forall>i<dimension (owner s).
         params (snd (setParams p s)) ! i = p ! i \<and> updated (snd (setParams p s)) ! i)
      \<and> (fst (setParams p s) \<longleftrightarrow> (\<exists>i<dimension (owner s). dne (params s ! i) (p ! i) \<or> \<not> updated s ! i))
      \<and> (\<not> fst (setParams p s) \<longrightarrow> snd (setParams p s) = s))
   \<and> (\<forall>g. group_wf (owner s) g \<longrightarrow>
        (\<forall>i<group_dimension g.
           params (snd (setParamsGroup p g s)) ! (group_state_index g ! i) = p ! i
           \<and> updated (snd (setParamsGroup p g s)) ! (group_state_index g ! i))
        \<and> (fst (setParamsGroup p g s) \<longleftrightarrow>
             (\<exists>i<group_dimension g. dne (params s ! (group_state_index g ! i)) (p ! i)
                                    \<or> \<not> updated s ! (group_state_index g ! i)))
        \<and> (\<not> fst (setParamsGroup p g s) \<longrightarrow> snd (setParamsGroup p g s) = s))
   \<and> (\<forall>n j. getJoint (owner s) n = Some j \<and> joint_wf (owner s) j \<longrightarrow>
        (\<exists>rs. setParamsJoint p n s = Inr rs
           \<and> (\<forall>i<used_params j.
                 params (snd rs) ! (state_index j + i) = p ! i
                 \<and> updated (snd rs) ! (state_index j + i))
           \<and> (fst rs \<longleftrightarrow>
                (\<exists>i<used_params j. dne (params s ! (state_index j + i)) (p ! i)
                                    \<or> \<not> updated s ! (state_index j + i)))
           \<and> (\<not> fst rs \<longrightarrow> snd rs = s)))"
proof -
  have lens: "length (params s) = dimension (owner s)" "length (updated s) = dimension (owner s)"
    using assms by (simp_all add: state_wf_def)
  have whole: "setParams p s = fold (set_step (\<lambda>i. i) p) [0..<dimension (owner s)] (False, s)"
    by (simp add: setParams_def getDimension_def setParams_step_eq)
  have A: "(\<forall>i<dimension (owner s).
         params (snd (setParams p s)) ! i = p ! i \<and> updated (snd (setParams p s)) ! i)
      \<and> (fst (setParams p s) \<longleftrightarrow> (\<exists>i<dimension (owner s). dne (params s ! i) (p ! i) \<or> \<not> updated s ! i))
      \<and> (\<not> fst (setParams p s) \<longrightarrow> snd (setParams p s) = s)"
    unfolding whole
    by (rule set_fold_contract [where idx = "\<lambda>i. i"]) (simp_all add: lens)
  have B: "(\<forall>i<group_dimension g.
           params (snd (setParamsGroup p g s)) ! (group_state_index g ! i) = p ! i
           \<and> updated (snd (setParamsGroup p g s)) ! (group_state_index g ! i))
        \<and> (fst (setParamsGroup p g s) \<longleftrightarrow>
             (\<exists>i<group_dimension g. dne (params s ! (group_state_index g ! i)) (p ! i)
                                    \<or> \<not> updated s ! (group_state_index g ! i)))
        \<and> (\<not> fst (setParamsGroup p g s) \<longrightarrow> snd (setParamsGroup p g s) = s)"
    if g: "group_wf (owner s) g" for g
  proof -
    have grp: "setParamsGroup p g s =
        fold (set_step (\<lambda>i. group_state_index g ! i) p) [0..<group_dimension g] (False, s)"
      by (simp add: setParamsGroup_def setParamsGroup_step_eq)
    have d: "distinct (map (\<lambda>i. group_state_index g ! i) [0..<group_dimension g])"
      using g by (simp add: group_wf_def map_nth)
    have r: "\<forall>i<group_dimension g. group_state_index g ! i < dimension (owner s)"
      using g by (simp add: group_wf_def)
    show ?thesis
      unfolding grp
      by (rule set_fold_contract [where idx = "\<lambda>i. group_state_index g ! i"])
         (use d r in \<open>simp_all add: lens\<close>)
  qed
  have C: "\<exists>rs. setParamsJoint p n s = Inr rs
           \<and> (\<forall>i<used_params j.
                 params (snd rs) ! (state_index j + i) = p ! i
                 \<and> updated (snd rs) ! (state_index j + i))
           \<and> (fst rs \<longleftrightarrow>
                (\<exists>i<used_params j. dne (params s ! (state_index j + i)) (p ! i)
                                    \<or> \<not> updated s ! (state_index j + i)))
           \<and> (\<not> fst rs \<longrightarrow> snd rs = s)"
    if j: "getJoint (owner s) n = Some j \<and> joint_wf (owner s) j" for n j
  proof -
    let ?rs = "fold (set_step (\<lambda>i. state_index j + i) p) [0..<used_params j] (False, s)"
    have jnt: "setParamsJoint p n s = Inr ?rs"
      using j by (simp add: setParamsJoint_def setParamsJoint_step_eq)
    have d: "distinct (map (\<lambda>i. state_index j + i) [0..<used_params j])"
      by (simp add: distinct_map inj_on_def)
    have r: "\<forall>i<used_params j. state_index j + i < dimension (owner s)"
      using j by (auto simp: joint_wf_def)
    have "(\<forall>i<used_params j.
                   params (snd ?rs) ! (state_index j + i) = p ! i
                   \<and> updated (snd ?rs) ! (state_index j + i))
             \<and> (fst ?rs \<longleftrightarrow>
                  (\<exists>i<used_params j. dne (params s ! (state_index j + i)) (p ! i)
                                      \<or> \<not> updated s ! (state_index j + i)))
             \<and> (\<not> fst ?rs \<longrightarrow> snd ?rs = s)"
      by (rule set_fold_contract [where idx = "\<lambda>i. state_index j + i"])
         (use d r in \<open>simp_all add: lens\<close>)
    with jnt show ?thesis by blast
  qed
  show ?thesis
    using A B C by (intro conjI allI impI) blast+
qed

theorem setParams_family_contract_witness:
  "state_wf (example_state (Finite (-1)) (Finite 1) (Finite 3) True)
   \<and> group_wf (owner (example_state (Finite (-1)) (Finite 1) (Finite 3) True)) example_group
   \<and> getJoint (owner (example_state (Finite (-1)) (Finite 1) (Finite 3) True)) ''shoulder'' = Some example_joint
   \<and> joint_wf (owner (example_state (Finite (-1)) (Finite 1) (Finite 3) True)) example_joint
   \<and> \<not> fst (setParams [Finite 3] (example_state (Finite (-1)) (Finite 1) (Finite 3) True))
   \<and> snd (setParams [Finite 3] (example_state (Finite (-1)) (Finite 1) (Finite 3) True)) = example_state (Finite (-1)) (Finite 1) (Finite 3) True
   \<and> fst (setParamsGroup [Finite 4] example_group (example_state (Finite (-1)) (Finite 1) (Finite 3) True))
   \<and> params (snd (setParamsGroup [Finite 4] example_group (example_state (Finite (-1)) (Finite 1) (Finite 3) True))) ! 0 = Finite 4
   \<and> (\<exists>rs. setParamsJoint [Finite 4] ''shoulder'' (example_state (Finite (-1)) (Finite 1) (Finite 3) True) = Inr rs
         \<and> fst rs \<and> params (snd rs) ! 0 = Finite 4 \<and> updated (snd rs) ! 0)"
proof -
  let ?s = "example_state (Finite (-1)) (Finite 1) (Finite 3) True"
  have a: "state_wf ?s"
    by (simp add: state_wf_def example_state_def example_model_def)
  have b: "group_wf (owner ?s) example_group"
    by (simp add: group_wf_def example_state_def example_model_def example_group_def)
  have c: "getJoint (owner ?s) ''shoulder'' = Some example_joint"
    by (simp add: getJoint_def example_state_def example_model_def)
  have d: "joint_wf (owner ?s) example_joint"
    by (simp add: joint_wf_def example_state_def example_model_def example_joint_def)
  have e: "dimension (owner ?s) = 1" "params ?s = [Finite 3]" "updated ?s = [True]"
    "group_dimension example_group = 1" "group_state_index example_group = [0]"
    "used_params example_joint = 1" "state_index example_joint = 0"
    by (simp_all add: example_state_def example_model_def example_group_def example_joint_def)
  note t3 = setParams_family_contract [OF a, of "[Finite 3]"]
  note t4 = setParams_family_contract [OF a, of "[Finite 4]"]
  have w1: "\<not> fst (setParams [Finite 3] ?s) \<and> snd (setParams [Finite 3] ?s) = ?s"
    using t3 [THEN conjunct1] by (simp add: e dne_def)
  have w2: "fst (setParamsGroup [Finite 4] example_group ?s)
            \<and> params (snd (setParamsGroup [Finite 4] example_group ?s)) ! 0 = Finite 4"
    using t4 [THEN conjunct2, THEN conjunct1, THEN spec, of example_group, THEN mp, OF b]
    by (simp add: e dne_def)
  have w3: "\<exists>rs. setParamsJoint [Finite 4] ''shoulder'' ?s = Inr rs
         \<and> fst rs \<and> params (snd rs) ! 0 = Finite 4 \<and> updated (snd rs) ! 0"
    using t4 [THEN conjunct2, THEN conjunct2, THEN spec, THEN spec, of "''shoulder''" example_joint,
        THEN mp, OF conjI [OF c d]]
    by (simp add: e dne_def) blast
  show ?thesis
    using a b c d w1 w2 w3 by blast
qed

text \<open>
  C8. The name lookups never fail: \<^verbatim>\<open>getModelGroup\<close> (from the header, with
  \<^verbatim>\<open>hasModelGroup\<close> as the spec describes it) never dereferences the end iterator,
  and it, \<^verbatim>\<open>getGroup\<close>, \<^verbatim>\<open>getJoint\<close> and \<^verbatim>\<open>getLink\<close> return "not found"
  for a name that is not registered and the registered object otherwise.
\<close>

theorem lookups_return_not_found:
  "(joint_model_group_map n = None \<longrightarrow> getModelGroup joint_model_group_map n = Inr None)
   \<and> (\<forall>g. joint_model_group_map n = Some g \<longrightarrow> getModelGroup joint_model_group_map n = Inr (Some g))
   \<and> (groupMap m n = None \<longrightarrow> getGroup m n = None)
   \<and> (\<forall>g. groupMap m n = Some g \<longrightarrow> getGroup m n = Some g)
   \<and> (jointMap m n = None \<longrightarrow> getJoint m n = None)
   \<and> (\<forall>j. jointMap m n = Some j \<longrightarrow> getJoint m n = Some j)
   \<and> (linkMap m n = None \<longrightarrow> getLink m n = None)
   \<and> (\<forall>l. linkMap m n = Some l \<longrightarrow> getLink m n = Some l)"
  by (simp add: getModelGroup_def hasModelGroup_def getGroup_def getJoint_def getLink_def)

theorem lookups_return_not_found_witness:
  "groupMap (example_model (Finite (-1)) (Finite 1)) ''leg'' = None
   \<and> getModelGroup (groupMap (example_model (Finite (-1)) (Finite 1))) ''leg'' = Inr None
   \<and> getModelGroup (groupMap (example_model (Finite (-1)) (Finite 1))) ''arm'' = Inr (Some example_group)
   \<and> getGroup (example_model (Finite (-1)) (Finite 1)) ''leg'' = None
   \<and> getGroup (example_model (Finite (-1)) (Finite 1)) ''arm'' = Some example_group
   \<and> getJoint (example_model (Finite (-1)) (Finite 1)) ''elbow'' = None
   \<and> getJoint (example_model (Finite (-1)) (Finite 1)) ''shoulder'' = Some example_joint
   \<and> getLink (example_model (Finite (-1)) (Finite 1)) ''forearm'' = None
   \<and> getLink (example_model (Finite (-1)) (Finite 1)) ''upper_arm'' = Some \<lparr>link_name = ''upper_arm''\<rparr>"
proof -
  have a: "groupMap (example_model (Finite (-1)) (Finite 1)) ''leg'' = None"
    and b: "groupMap (example_model (Finite (-1)) (Finite 1)) ''arm'' = Some example_group"
    and c: "jointMap (example_model (Finite (-1)) (Finite 1)) ''elbow'' = None"
    and d: "jointMap (example_model (Finite (-1)) (Finite 1)) ''shoulder'' = Some example_joint"
    and e: "linkMap (example_model (Finite (-1)) (Finite 1)) ''forearm'' = None"
    and f: "linkMap (example_model (Finite (-1)) (Finite 1)) ''upper_arm'' = Some \<lparr>link_name = ''upper_arm''\<rparr>"
    by (simp_all add: example_model_def)
  show ?thesis
    using a b c d e f
      lookups_return_not_found [of "groupMap (example_model (Finite (-1)) (Finite 1))" "''leg''" "example_model (Finite (-1)) (Finite 1)"]
      lookups_return_not_found [of "groupMap (example_model (Finite (-1)) (Finite 1))" "''arm''" "example_model (Finite (-1)) (Finite 1)"]
      lookups_return_not_found [of "groupMap (example_model (Finite (-1)) (Finite 1))" "''elbow''" "example_model (Finite (-1)) (Finite 1)"]
      lookups_return_not_found [of "groupMap (example_model (Finite (-1)) (Finite 1))" "''shoulder''" "example_model (Finite (-1)) (Finite 1)"]
      lookups_return_not_found [of "groupMap (example_model (Finite (-1)) (Finite 1))" "''forearm''" "example_model (Finite (-1)) (Finite 1)"]
      lookups_return_not_found [of "groupMap (example_model (Finite (-1)) (Finite 1))" "''upper_arm''" "example_model (Finite (-1)) (Finite 1)"]
    by simp
qed

text \<open>
  C10. Every operation of the state that takes a group or joint name uses the result
  of the lookup unchecked: it ends in the null-pointer error exactly when the lookup
  finds nothing, and when the lookup succeeds it is the operation on the object found.
\<close>

theorem named_operations_fail_iff_lookup_fails:
  "(defaultParamsGroup_name rnd n s = Inl NullPointer \<longleftrightarrow> getGroup (owner s) n = None)
   \<and> (randomParamsGroup_name rnd rand_r n s = Inl NullPointer \<longleftrightarrow> getGroup (owner s) n = None)
   \<and> (perturbParamsGroup_name rnd rand_r factor n s = Inl NullPointer \<longleftrightarrow> getGroup (owner s) n = None)
   \<and> (enforceBoundsGroup_name n s = Inl NullPointer \<longleftrightarrow> getGroup (owner s) n = None)
   \<and> (checkBoundsGroup_name n s = Inl NullPointer \<longleftrightarrow> getGroup (owner s) n = None)
   \<and> (resetGroup_name n s = Inl NullPointer \<longleftrightarrow> getGroup (owner s) n = None)
   \<and> (seenAllGroup_name n s = Inl NullPointer \<longleftrightarrow> getGroup (owner s) n = None)
   \<and> (setParamsGroup_name p n s = Inl NullPointer \<longleftrightarrow> getGroup (owner s) n = None)
   \<and> (setAllInGroup_name v n s = Inl NullPointer \<longleftrightarrow> getGroup (owner s) n = None)
   \<and> (copyParamsGroup_name n s = Inl NullPointer \<longleftrightarrow> getGroup (owner s) n = None)
   \<and> (checkBoundsJoint n s = Inl NullPointer \<longleftrightarrow> getJoint (owner s) n = None)
   \<and> (seenJoint n s = Inl NullPointer \<longleftrightarrow> getJoint (owner s) n = None)
   \<and> (getParamsJoint n s = Inl NullPointer \<longleftrightarrow> getJoint (owner s) n = None)
   \<and> (setParamsJoint p n s = Inl NullPointer \<longleftrightarrow> getJoint (owner s) n = None)
   \<and> (copyParamsJoint n s = Inl NullPointer \<longleftrightarrow> getJoint (owner s) n = None)
   \<and> (\<forall>g. getGroup (owner s) n = Some g \<longrightarrow>
         defaultParamsGroup_name rnd n s = Inr (defaultParamsGroup rnd g s)
         \<and> randomParamsGroup_name rnd rand_r n s = Inr (randomParamsGroup rnd rand_r g s)
         \<and> perturbParamsGroup_name rnd rand_r factor n s = Inr (perturbParamsGroup rnd rand_r factor g s)
         \<and> enforceBoundsGroup_name n s = Inr (enforceBoundsGroup g s)
         \<and> checkBoundsGroup_name n s = Inr (checkBoundsGroup g s)
         \<and> resetGroup_name n s = Inr (resetGroup g s)
         \<and> seenAllGroup_name n s = Inr (seenAllGroup g s)
         \<and> setParamsGroup_name p n s = Inr (setParamsGroup p g s)
         \<and> setAllInGroup_name v n s = Inr (setAllInGroup v g s)
         \<and> copyParamsGroup_name n s = Inr (copyParamsGroup g s))
   \<and> (\<forall>j. getJoint (owner s) n = Some j \<longrightarrow>
         (\<exists>b. checkBoundsJoint n s = Inr b) \<and> (\<exists>b. seenJoint n s = Inr b)
         \<and> (\<exists>ps. getParamsJoint n s = Inr ps) \<and> (\<exists>rs. setParamsJoint p n s = Inr rs)
         \<and> (\<exists>ps. copyParamsJoint n s = Inr ps))"
  by (simp add: defaultParamsGroup_name_def randomParamsGroup_name_def perturbParamsGroup_name_def
      enforceBoundsGroup_name_def checkBoundsGroup_name_def resetGroup_name_def
      seenAllGroup_name_def setParamsGroup_name_def setAllInGroup_name_def copyParamsGroup_name_def
      checkBoundsJoint_def seenJoint_def getParamsJoint_def setParamsJoint_def copyParamsJoint_def
      Let_def split: option.split)

theorem named_operations_fail_iff_lookup_fails_witness:
  "getGroup (owner (example_state (Finite (-1)) (Finite 1) (Finite 3) True)) ''leg'' = None
   \<and> defaultParamsGroup_name exact_rounding ''leg'' (example_state (Finite (-1)) (Finite 1) (Finite 3) True) = Inl NullPointer
   \<and> getJoint (owner (example_state (Finite (-1)) (Finite 1) (Finite 3) True)) ''elbow'' = None
   \<and> getParamsJoint ''elbow'' (example_state (Finite (-1)) (Finite 1) (Finite 3) True) = Inl NullPointer
   \<and> getGroup (owner (example_state (Finite (-1)) (Finite 1) (Finite 3) True)) ''arm'' = Some example_group
   \<and> enforceBoundsGroup_name ''arm'' (example_state (Finite (-1)) (Finite 1) (Finite 3) True)
       = Inr (enforceBoundsGroup example_group (example_state (Finite (-1)) (Finite 1) (Finite 3) True))
   \<and> getJoint (owner (example_state (Finite (-1)) (Finite 1) (Finite 3) True)) ''shoulder'' = Some example_joint
   \<and> getParamsJoint ''shoulder'' (example_state (Finite (-1)) (Finite 1) (Finite 3) True) \<noteq> Inl NullPointer"
proof -
  let ?s = "example_state (Finite (-1)) (Finite 1) (Finite 3) True"
  have a: "getGroup (owner ?s) ''leg'' = None"
    and b: "getJoint (owner ?s) ''elbow'' = None"
    and c: "getGroup (owner ?s) ''arm'' = Some example_group"
    and d: "getJoint (owner ?s) ''shoulder'' = Some example_joint"
    by (simp_all add: getGroup_def getJoint_def example_state_def example_model_def)
  show ?thesis
    using a b c d
      named_operations_fail_iff_lookup_fails [of exact_rounding "''leg''" ?s]
      named_operations_fail_iff_lookup_fails [of _ "''elbow''" ?s]
      named_operations_fail_iff_lookup_fails [of _ "''arm''" ?s]
      named_operations_fail_iff_lookup_fails [of _ "''shoulder''" ?s]
    by simp
qed

text \<open>
  C1. For every model the construction yields, the joint at position \<open>k\<close> of the
  declaration order starts at the sum of \<open>used_params\<close> of the joints before it and ends
  inside the state vector; every index below the dimension lies in the range of exactly
  one joint; and the sum of \<open>used_params\<close> over all joints is the dimension.
\<close>

theorem stateIndex_ranges_partition:
  assumes "buildModel full_turn root_link = Some M"
  shows "(\<forall>k<length (jointList M).
            state_index (jointList M ! k) = sum_list (map used_params (take k (jointList M)))
            \<and> state_index (jointList M ! k) + used_params (jointList M ! k) \<le> dimension M)
       \<and> (\<forall>i<dimension M.
            \<exists>!k. k < length (jointList M) \<and> state_index (jointList M ! k) \<le> i
                  \<and> i < state_index (jointList M ! k) + used_params (jointList M ! k))
       \<and> sum_list (map used_params (jointList M)) = dimension M"
proof -
  let ?jl = "jointList M"
  let ?ns = "map used_params ?jl"
  have "layout_ok \<lparr>groupMap = Map.empty, linkMap = Map.empty, jointMap = Map.empty, jointList = [],
        stateBounds = [], dimension = 0\<rparr>"
    by (simp add: layout_ok_def)
  from build_layout_ok(1) [OF this assms [unfolded buildModel_def]]
  have idx: "\<And>k. k < length ?jl \<Longrightarrow> state_index (?jl ! k) = sum_list (take k ?ns)"
    and total: "sum_list ?ns = dimension M"
    by (simp_all add: layout_ok_def take_map)
  have inside: "state_index (?jl ! k) + used_params (?jl ! k) \<le> dimension M" if "k < length ?jl" for k
    using prefix_sum_le [of k ?ns] that idx [OF that] total by simp
  have part: "\<exists>!k. k < length ?jl \<and> state_index (?jl ! k) \<le> i
                  \<and> i < state_index (?jl ! k) + used_params (?jl ! k)" if "i < dimension M" for i
  proof -
    have "\<exists>!k. k < length ?ns \<and> sum_list (take k ?ns) \<le> i \<and> i < sum_list (take k ?ns) + ?ns ! k"
      using that total by (intro prefix_sums_partition) simp
    then obtain k where k: "k < length ?ns" "sum_list (take k ?ns) \<le> i"
      "i < sum_list (take k ?ns) + ?ns ! k"
      and uniq: "\<And>k'. k' < length ?ns \<and> sum_list (take k' ?ns) \<le> i
                       \<and> i < sum_list (take k' ?ns) + ?ns ! k' \<Longrightarrow> k' = k"
      by blast
    show ?thesis
    proof (rule ex1I [of _ k])
      show "k < length ?jl \<and> state_index (?jl ! k) \<le> i
            \<and> i < state_index (?jl ! k) + used_params (?jl ! k)"
        using k idx [of k] by simp
    next
      fix k'
      assume a: "k' < length ?jl \<and> state_index (?jl ! k') \<le> i
            \<and> i < state_index (?jl ! k') + used_params (?jl ! k')"
      then show "k' = k" using uniq [of k'] idx [of k'] by simp
    qed
  qed
  show ?thesis
    using idx inside part total by (simp add: take_map)
qed

theorem stateIndex_ranges_partition_witness:
  "buildModel (Finite (-4), Finite 4) example_description \<noteq> None
   \<and> map state_index (jointList (the (buildModel (Finite (-4), Finite 4) example_description))) = [0, 3, 4, 5, 5]
   \<and> map used_params (jointList (the (buildModel (Finite (-4), Finite 4) example_description))) = [3, 1, 1, 0, 1]
   \<and> sum_list (map used_params (jointList (the (buildModel (Finite (-4), Finite 4) example_description))))
       = dimension (the (buildModel (Finite (-4), Finite 4) example_description))
   \<and> dimension (the (buildModel (Finite (-4), Finite 4) example_description)) = 6"
proof -
  obtain M where M: "buildModel (Finite (-4), Finite 4) example_description = Some M"
    using example_description_layout(4) by blast
  have "sum_list (map used_params (jointList M)) = dimension M"
    using stateIndex_ranges_partition [OF M] by blast
  then show ?thesis
    using M example_description_layout by simp
qed

text \<open>
  C9 (amended). Two well-formed states of one model that carry the same seed and receive the
  same calls of \<^verbatim>\<open>randomParams\<close>, \<^verbatim>\<open>randomParamsGroup\<close> and \<^verbatim>\<open>perturbParams\<close>
  end with the same seed, and with the same value in every component that held the same
  value at the start or that one of the calls sampled, whatever the other components and
  the seen flags held; the whole buffers are equal when they were equal at the start or
  when one of the calls is \<^verbatim>\<open>randomParams\<close>. For a rounding with the properties
  of binary64, well-formed bounds that are finite doubles with a finite width, and draws
  of \<^verbatim>\<open>rand_r\<close> in \<open>0..RAND_MAX\<close>, every component that \<^verbatim>\<open>randomParams\<close> or
  \<^verbatim>\<open>randomParamsGroup\<close> samples lies within its bounds. After \<^verbatim>\<open>perturbParams\<close>
  every component is NaN or lies within its bounds, and it lies within its bounds when the
  component and the product of the factor and the width were finite.
\<close>

theorem random_calls_reproducible_within_bounds:
  "(state_wf s1 \<and> state_wf s2 \<and> owner s1 = owner s2 \<and> randSeed s1 = randSeed s2
      \<and> (\<forall>c\<in>set calls. random_call_wf (owner s1) c) \<longrightarrow>
      randSeed (random_calls_run rnd rand_r calls s1) = randSeed (random_calls_run rnd rand_r calls s2)
      \<and> (\<forall>k<dimension (owner s1).
            params s1 ! k = params s2 ! k \<or> (\<exists>c\<in>set calls. k \<in> sampled (owner s1) c) \<longrightarrow>
            params (random_calls_run rnd rand_r calls s1) ! k
              = params (random_calls_run rnd rand_r calls s2) ! k)
      \<and> (params s1 = params s2 \<or> RandomParams \<in> set calls \<longrightarrow>
            params (random_calls_run rnd rand_r calls s1)
              = params (random_calls_run rnd rand_r calls s2)))
   \<and> (ieee_rounding rnd \<and> state_wf s \<and> bounds_wf (owner s) \<and> finite_widths rnd (owner s)
        \<and> (\<forall>seed. 0 \<le> fst (rand_r seed) \<and> fst (rand_r seed) \<le> RAND_MAX) \<longrightarrow>
      (\<forall>i<dimension (owner s).
          inside_bounds (stateBounds (owner s)) (params (randomParams rnd rand_r s)) i)
      \<and> (\<forall>g. group_wf (owner s) g \<longrightarrow>
            (\<forall>j\<in>set (group_state_index g).
               inside_bounds (stateBounds (owner s)) (params (randomParamsGroup rnd rand_r g s)) j)))
   \<and> (state_wf s \<and> bounds_wf (owner s) \<longrightarrow>
      (\<forall>i<dimension (owner s).
          params (perturbParams rnd rand_r factor s) ! i = NaN
          \<or> inside_bounds (stateBounds (owner s)) (params (perturbParams rnd rand_r factor s)) i))
   \<and> (ieee_rounding rnd \<and> state_wf s \<and> bounds_wf (owner s) \<and> perturb_finite rnd factor s
        \<and> (\<forall>seed. 0 \<le> fst (rand_r seed) \<and> fst (rand_r seed) \<le> RAND_MAX) \<longrightarrow>
      (\<forall>i<dimension (owner s).
          inside_bounds (stateBounds (owner s)) (params (perturbParams rnd rand_r factor s)) i))"
proof -
  have A: "randSeed (random_calls_run rnd rand_r calls s1) = randSeed (random_calls_run rnd rand_r calls s2)
      \<and> (\<forall>k<dimension (owner s1).
            params s1 ! k = params s2 ! k \<or> (\<exists>c\<in>set calls. k \<in> sampled (owner s1) c) \<longrightarrow>
            params (random_calls_run rnd rand_r calls s1) ! k
              = params (random_calls_run rnd rand_r calls s2) ! k)
      \<and> (params s1 = params s2 \<or> RandomParams \<in> set calls \<longrightarrow>
            params (random_calls_run rnd rand_r calls s1)
              = params (random_calls_run rnd rand_r calls s2))"
    if h: "state_wf s1 \<and> state_wf s2 \<and> owner s1 = owner s2 \<and> randSeed s1 = randSeed s2
      \<and> (\<forall>c\<in>set calls. random_call_wf (owner s1) c)"
  proof -
    let ?A = "{k. params s1 ! k = params s2 ! k}"
    let ?S = "\<Union>c\<in>set calls. sampled (owner s1) c"
    let ?r1 = "random_calls_run rnd rand_r calls s1" and ?r2 = "random_calls_run rnd rand_r calls s2"
    have len1: "length (params s1) = dimension (owner s1)"
      and len2: "length (params s2) = dimension (owner s1)"
      using h by (simp_all add: state_wf_def)
    have "agree_on ?A s1 s2"
      using h len1 len2 by (simp add: agree_on_def)
    from random_calls_run_agree [OF this len1, of calls rnd rand_r] h
    have ag: "agree_on (?A \<union> ?S) ?r1 ?r2" by blast
    then have seed: "randSeed ?r1 = randSeed ?r2"
      and pt: "\<And>k. k \<in> ?A \<union> ?S \<Longrightarrow> params ?r1 ! k = params ?r2 ! k"
      and len: "length (params ?r1) = length (params ?r2)"
      by (simp_all add: agree_on_def)
    have all: "params ?r1 = params ?r2" if "params s1 = params s2 \<or> RandomParams \<in> set calls"
    proof (rule nth_equalityI [OF len])
      fix k assume "k < length (params ?r1)"
      then have k: "k < dimension (owner s1)"
        using len1 by (simp add: random_calls_run_fields)
      have "k \<in> ?A \<union> ?S"
      proof (cases "params s1 = params s2")
        case True
        then show ?thesis by simp
      next
        case False
        then have "RandomParams \<in> set calls" using that by blast
        moreover have "k \<in> sampled (owner s1) RandomParams" using k by simp
        ultimately show ?thesis by blast
      qed
      then show "params ?r1 ! k = params ?r2 ! k" by (rule pt)
    qed
    show ?thesis
      using seed pt all by blast
  qed
  have B: "(\<forall>i<dimension (owner s).
          inside_bounds (stateBounds (owner s)) (params (randomParams rnd rand_r s)) i)
      \<and> (\<forall>g. group_wf (owner s) g \<longrightarrow>
            (\<forall>j\<in>set (group_state_index g).
               inside_bounds (stateBounds (owner s)) (params (randomParamsGroup rnd rand_r g s)) j))"
    if h: "ieee_rounding rnd \<and> state_wf s \<and> bounds_wf (owner s) \<and> finite_widths rnd (owner s)
        \<and> (\<forall>seed. 0 \<le> fst (rand_r seed) \<and> fst (rand_r seed) \<le> RAND_MAX)"
  proof -
    from h have r: "ieee_rounding rnd" and wf: "state_wf s" and b: "bounds_wf (owner s)"
      and fw: "finite_widths rnd (owner s)"
      and rr: "\<forall>seed. 0 \<le> fst (rand_r seed) \<and> fst (rand_r seed) \<le> RAND_MAX"
      by simp_all
    show ?thesis
      using randomParams_inside [OF r wf b fw rr] randomParamsGroup_inside [OF r wf b fw rr]
      by blast
  qed
  have C: "\<forall>i<dimension (owner s).
          params (perturbParams rnd rand_r factor s) ! i = NaN
          \<or> inside_bounds (stateBounds (owner s)) (params (perturbParams rnd rand_r factor s)) i"
    if h: "state_wf s \<and> bounds_wf (owner s)"
    using perturbParams_within_or_NaN [of s _ rnd rand_r factor] h by blast
  have D: "\<forall>i<dimension (owner s).
          inside_bounds (stateBounds (owner s)) (params (perturbParams rnd rand_r factor s)) i"
    if h: "ieee_rounding rnd \<and> state_wf s \<and> bounds_wf (owner s) \<and> perturb_finite rnd factor s
        \<and> (\<forall>seed. 0 \<le> fst (rand_r seed) \<and> fst (rand_r seed) \<le> RAND_MAX)"
  proof -
    from h have r: "ieee_rounding rnd" and wf: "state_wf s" and b: "bounds_wf (owner s)"
      and pf: "perturb_finite rnd factor s"
      and rr: "\<forall>seed. 0 \<le> fst (rand_r seed) \<and> fst (rand_r seed) \<le> RAND_MAX"
      by simp_all
    show ?thesis
      using perturbParams_inside [OF r wf b pf rr] by blast
  qed
  show ?thesis
    using A B C D by (intro conjI impI) blast+
qed

theorem random_calls_reproducible_within_bounds_witness:
  "state_wf (example_state (Finite (-10)) (Finite 10) (Finite 0) True)
   \<and> state_wf (example_state (Finite (-10)) (Finite 10) (Finite 1) False)
   \<and> owner (example_state (Finite (-10)) (Finite 10) (Finite 0) True)
       = owner (example_state (Finite (-10)) (Finite 10) (Finite 1) False)
   \<and> randSeed (example_state (Finite (-10)) (Finite 10) (Finite 0) True)
       = randSeed (example_state (Finite (-10)) (Finite 10) (Finite 1) False)
   \<and> params (example_state (Finite (-10)) (Finite 10) (Finite 0) True)
       \<noteq> params (example_state (Finite (-10)) (Finite 10) (Finite 1) False)
   \<and> params (random_calls_run exact_rounding (\<lambda>seed. (1610612736, seed + 1))
               [RandomParams, PerturbParams (Finite (1 / 8))]
               (example_state (Finite (-10)) (Finite 10) (Finite 0) True))
     = params (random_calls_run exact_rounding (\<lambda>seed. (1610612736, seed + 1))
               [RandomParams, PerturbParams (Finite (1 / 8))]
               (example_state (Finite (-10)) (Finite 10) (Finite 1) False))
   \<and> params (random_calls_run exact_rounding (\<lambda>seed. (1610612736, seed + 1))
               [RandomParams, PerturbParams (Finite (1 / 8))]
               (example_state (Finite (-10)) (Finite 10) (Finite 0) True)) = [Finite (25 / 4)]
   \<and> ieee_rounding exact_rounding
   \<and> bounds_wf (owner (example_state (Finite (-10)) (Finite 10) (Finite 0) True))
   \<and> finite_widths exact_rounding (owner (example_state (Finite (-10)) (Finite 10) (Finite 0) True))
   \<and> perturb_finite exact_rounding (Finite (1 / 8))
        (example_state (Finite (-10)) (Finite 10) (Finite 0) True)
   \<and> group_wf (owner (example_state (Finite (-10)) (Finite 10) (Finite 0) True)) example_group
   \<and> params (randomParams exact_rounding (\<lambda>seed. (1610612736, seed + 1))
               (example_state (Finite (-10)) (Finite 10) (Finite 0) True)) = [Finite 5]
   \<and> inside_bounds [Finite (-10), Finite 10]
        (params (randomParams exact_rounding (\<lambda>seed. (1610612736, seed + 1))
                  (example_state (Finite (-10)) (Finite 10) (Finite 0) True))) 0
   \<and> inside_bounds [Finite (-10), Finite 10]
        (params (randomParamsGroup exact_rounding (\<lambda>seed. (1610612736, seed + 1)) example_group
                  (example_state (Finite (-10)) (Finite 10) (Finite 0) True))) 0
   \<and> params (perturbParams exact_rounding (\<lambda>seed. (1610612736, seed + 1)) (Finite (1 / 8))
               (example_state (Finite (-10)) (Finite 10) (Finite 0) True)) = [Finite (5 / 4)]
   \<and> inside_bounds [Finite (-10), Finite 10]
        (params (perturbParams exact_rounding (\<lambda>seed. (1610612736, seed + 1)) (Finite (1 / 8))
                  (example_state (Finite (-10)) (Finite 10) (Finite 0) True))) 0"
proof -
  let ?s1 = "example_state (Finite (-10)) (Finite 10) (Finite 0) True"
  let ?s2 = "example_state (Finite (-10)) (Finite 10) (Finite 1) False"
  let ?r = "\<lambda>seed::32 word. (1610612736::int, seed + 1)"
  let ?calls = "[RandomParams, PerturbParams (Finite (1 / 8))]"
  have a: "state_wf ?s1 \<and> state_wf ?s2 \<and> owner ?s1 = owner ?s2 \<and> randSeed ?s1 = randSeed ?s2
           \<and> (\<forall>c\<in>set ?calls. random_call_wf (owner ?s1) c)"
    by (simp add: state_wf_def example_state_def example_model_def)
  have ne: "params ?s1 \<noteq> params ?s2"
    by (simp add: example_state_def)
  have rr: "\<forall>seed. 0 \<le> fst (?r seed) \<and> fst (?r seed) \<le> RAND_MAX"
    by (simp add: RAND_MAX_def)
  have e: "dimension (owner ?s1) = 1" "stateBounds (owner ?s1) = [Finite (-10), Finite 10]"
    "params ?s1 = [Finite 0]" "group_state_index example_group = [0]"
    by (simp_all add: example_state_def example_model_def example_group_def)
  have b: "bounds_wf (owner ?s1)"
    by (simp add: bounds_wf_def e)
  have fw: "finite_widths exact_rounding (owner ?s1)"
    by (simp add: finite_widths_def finite_width_def e exact_rounding_moderate)
  have pf: "perturb_finite exact_rounding (Finite (1 / 8)) ?s1"
  proof -
    have "(5 / 2 :: real) * 2 = 5"
      by simp
    then have "\<exists>q::real. q * 2 = 5"
      by (rule exI)
    then show ?thesis
      by (simp add: perturb_finite_def e dsub_def exact_rounding_moderate)
  qed
  have g: "group_wf (owner ?s1) example_group"
    by (simp add: group_wf_def e example_group_def)
  have v1: "params (random_calls_run exact_rounding ?r ?calls ?s1) = [Finite (25 / 4)]"
    and v2: "params (randomParams exact_rounding ?r ?s1) = [Finite 5]"
    and v3: "params (perturbParams exact_rounding ?r (Finite (1 / 8)) ?s1) = [Finite (5 / 4)]"
    by (simp_all add: sampling_eval)
  note t = random_calls_reproducible_within_bounds
    [where ?s1.0 = ?s1 and ?s2.0 = ?s2 and calls = ?calls and rnd = exact_rounding
       and s = ?s1 and rand_r = ?r and factor = "Finite (1 / 8)"]
  have w1: "params (random_calls_run exact_rounding ?r ?calls ?s1)
            = params (random_calls_run exact_rounding ?r ?calls ?s2)"
    using t [THEN conjunct1, THEN mp, OF a] by simp
  have hB: "ieee_rounding exact_rounding \<and> state_wf ?s1 \<and> bounds_wf (owner ?s1)
            \<and> finite_widths exact_rounding (owner ?s1)
            \<and> (\<forall>seed. 0 \<le> fst (?r seed) \<and> fst (?r seed) \<le> RAND_MAX)"
    using ieee_rounding_exact a b fw rr by blast
  note u = t [THEN conjunct2, THEN conjunct1, THEN mp, OF hB]
  have w2: "inside_bounds [Finite (-10), Finite 10] (params (randomParams exact_rounding ?r ?s1)) 0"
    using u [THEN conjunct1] by (simp add: e)
  have w3: "inside_bounds [Finite (-10), Finite 10]
              (params (randomParamsGroup exact_rounding ?r example_group ?s1)) 0"
    using u [THEN conjunct2, THEN spec, of example_group, THEN mp, OF g] by (simp add: e)
  have hD: "ieee_rounding exact_rounding \<and> state_wf ?s1 \<and> bounds_wf (owner ?s1)
            \<and> perturb_finite exact_rounding (Finite (1 / 8)) ?s1
            \<and> (\<forall>seed. 0 \<le> fst (?r seed) \<and> fst (?r seed) \<le> RAND_MAX)"
    using ieee_rounding_exact a b pf rr by blast
  have w4: "inside_bounds [Finite (-10), Finite 10]
              (params (perturbParams exact_rounding ?r (Finite (1 / 8)) ?s1)) 0"
    using t [THEN conjunct2, THEN conjunct2, THEN conjunct2, THEN mp, OF hD] by (simp add: e)
  show ?thesis
    using a ne w1 v1 ieee_rounding_exact b fw pf g v2 w2 w3 v3 w4 by blast
qed

text \<open>
  C9 as stated fails in two ways. Equal seeds alone do not give equal results: with the same
  seed and the same draw, \<^verbatim>\<open>perturbParams\<close> turns the values 0 and 1 into 5/4 and 9/4.
  And a sample may leave its bounds: for the well-formed bounds \<open>(-DBL_MAX, DBL_MAX)\<close> the
  width overflows and \<^verbatim>\<open>randomParams\<close> stores the positive infinity.
\<close>

theorem equal_seeds_not_enough_counterexample:
  "owner (example_state (Finite (-10)) (Finite 10) (Finite 0) True)
     = owner (example_state (Finite (-10)) (Finite 10) (Finite 1) True)
   \<and> randSeed (example_state (Finite (-10)) (Finite 10) (Finite 0) True)
       = randSeed (example_state (Finite (-10)) (Finite 10) (Finite 1) True)
   \<and> params (random_calls_run exact_rounding (\<lambda>seed. (1610612736, seed + 1))
               [PerturbParams (Finite (1 / 8))]
               (example_state (Finite (-10)) (Finite 10) (Finite 0) True)) = [Finite (5 / 4)]
   \<and> params (random_calls_run exact_rounding (\<lambda>seed. (1610612736, seed + 1))
               [PerturbParams (Finite (1 / 8))]
               (example_state (Finite (-10)) (Finite 10) (Finite 1) True)) = [Finite (9 / 4)]
   \<and> bounds_wf (owner (example_state (Finite (- DBL_MAX)) (Finite DBL_MAX) (Finite 0) True))
   \<and> params (randomParams exact_rounding (\<lambda>seed. (1610612736, seed + 1))
               (example_state (Finite (- DBL_MAX)) (Finite DBL_MAX) (Finite 0) True)) = [PInf]
   \<and> \<not> dle PInf (Finite DBL_MAX)"
proof -
  have over: "exact_rounding (DBL_MAX + DBL_MAX) = PInf"
    using DBL_MAX_pos by (simp add: exact_rounding_def)
  have p: "params (randomParams exact_rounding (\<lambda>seed. (1610612736, seed + 1))
               (example_state (Finite (- DBL_MAX)) (Finite DBL_MAX) (Finite 0) True)) = [PInf]"
    using over by (simp add: sampling_eval)
  have b: "bounds_wf (owner (example_state (Finite (- DBL_MAX)) (Finite DBL_MAX) (Finite 0) True))"
    using DBL_MAX_pos by (simp add: bounds_wf_def example_state_def example_model_def)
  show ?thesis
    using p b by (simp add: dle_def) (simp add: sampling_eval)
qed

end
